(* ===== verification/Franz_Prelude.thy ===== *)
theory Franz_Prelude
  imports Main "HOL-Library.AList" "HOL-Library.Multiset" "HOL-Library.Word"
begin

text \<open>
  Shared ground of the development: the fragment of Go that the adapter uses.

  \<^item> \<^bold>\<open>Panics.\<close> A Go function is a value of type \<open>('s, 'a) go\<close>: it takes the state and
    returns an outcome (a result, or a panic) and the state it left behind. \<open>go_bind\<close> sequences
    two of them; a panic skips the rest, and what was written before the panic stays written.
  \<^item> \<^bold>\<open>Maps.\<close> A Go map is an association list. Lookup is \<open>map_of\<close>, an assignment is
    \<open>AList.update\<close>, \<open>delete\<close> is \<open>AList.delete\<close>; the order in which a \<open>range\<close> loop visits the
    entries is not specified by Go, and wherever it can be observed it is a parameter of the model.
  \<^item> \<^bold>\<open>Errors.\<close> \<open>go_error\<close> is an error value with its chain of wrapped errors.
  \<^item> \<^bold>\<open>Durations\<close> are counts of nanoseconds; \<open>time.Time.Sub\<close> saturates.
  \<^item> \<^bold>\<open>Interfaces.\<close> The locales \<open>once_guard\<close> (what a \<open>sync.Once\<close> gives its callers),
    \<open>go_map\<close> (what the code relies on in a map), \<open>transition_invariant\<close> (an invariant of a
    step relation) and \<open>simulation\<close> (its steps implement those of a specification) are stated here, with the client lemmas that follow from them.
\<close>

named_theorems go_simps \<open>equations that run the state-and-panic combinators\<close>
named_theorems frame_simps \<open>fields that an operation leaves alone\<close>

section \<open>Outcomes and sequencing\<close>

datatype 'a outcome = Ok 'a | Panic string

type_synonym ('s, 'a) go = "'s \<Rightarrow> 'a outcome \<times> 's"

definition go_return :: "'a \<Rightarrow> ('s, 'a) go" where
  "go_return x = (\<lambda>s. (Ok x, s))"

definition go_panic :: "string \<Rightarrow> ('s, 'a) go" where
  "go_panic m = (\<lambda>s. (Panic m, s))"

definition go_bind :: "('s, 'a) go \<Rightarrow> ('a \<Rightarrow> ('s, 'b) go) \<Rightarrow> ('s, 'b) go" where
  "go_bind m f = (\<lambda>s. case m s of (Ok x, s') \<Rightarrow> f x s' | (Panic p, s') \<Rightarrow> (Panic p, s'))"

definition go_modify :: "('s \<Rightarrow> 's) \<Rightarrow> ('s, unit) go" where
  "go_modify f = (\<lambda>s. (Ok (), f s))"

definition go_read :: "('s \<Rightarrow> 'a) \<Rightarrow> ('s, 'a) go" where
  "go_read f = (\<lambda>s. (Ok (f s), s))"

definition go_when :: "bool \<Rightarrow> ('s, unit) go \<Rightarrow> ('s, unit) go" where
  "go_when b m = (if b then m else go_return ())"

fun go_foreach :: "('x \<Rightarrow> ('s, unit) go) \<Rightarrow> 'x list \<Rightarrow> ('s, unit) go" where
  "go_foreach f [] = go_return ()"
| "go_foreach f (x # xs) = go_bind (f x) (\<lambda>_. go_foreach f xs)"

definition panics :: "'a outcome \<times> 's \<Rightarrow> bool" where
  "panics r = (case fst r of Panic _ \<Rightarrow> True | Ok _ \<Rightarrow> False)"

lemma go_return_app [simp, go_simps]: "go_return x s = (Ok x, s)"
  by (simp add: go_return_def)

lemma go_panic_app [simp, go_simps]: "go_panic m s = (Panic m, s)"
  by (simp add: go_panic_def)

lemma go_modify_app [simp, go_simps]: "go_modify f s = (Ok (), f s)"
  by (simp add: go_modify_def)

lemma go_read_app [simp, go_simps]: "go_read f s = (Ok (f s), s)"
  by (simp add: go_read_def)

lemma go_bind_app: "go_bind m f s = (case m s of (Ok x, s') \<Rightarrow> f x s' | (Panic p, s') \<Rightarrow> (Panic p, s'))"
  by (simp add: go_bind_def)

lemma go_bind_prims [simp, go_simps]:
  "go_bind (go_return x) f s = f x s"
  "go_bind (go_modify g) f s = f () (g s)"
  "go_bind (go_read r) f s = f (r s) s"
  "go_bind (go_panic p) f s = (Panic p, s)"
  by (simp_all add: go_bind_def)

lemma go_bind_Ok: "m s = (Ok x, s') \<Longrightarrow> go_bind m f s = f x s'"
  by (simp add: go_bind_def)

lemma go_bind_Panic: "m s = (Panic p, s') \<Longrightarrow> go_bind m f s = (Panic p, s')"
  by (simp add: go_bind_def)

lemma go_when_app [go_simps]: "go_when b m s = (if b then m s else (Ok (), s))"
  by (simp add: go_when_def)

lemma panics_simps [simp, go_simps]: "\<not> panics (Ok x, s)" "panics (Panic p, s)"
  by (simp_all add: panics_def)

text \<open>
  A relation between the state before and after is kept by a sequence when each part keeps it:
  the rule behind every frame lemma of the development.
\<close>

definition keeps :: "('s \<Rightarrow> 's \<Rightarrow> bool) \<Rightarrow> ('s, 'a) go \<Rightarrow> bool" where
  "keeps R m = (\<forall>s. R s (snd (m s)))"

lemma keepsD: "keeps R m \<Longrightarrow> m s = (r, s') \<Longrightarrow> R s s'"
  by (metis keeps_def snd_conv)

lemma keeps_return [intro]: "reflp R \<Longrightarrow> keeps R (go_return x)"
  by (simp add: keeps_def reflpD)

lemma keeps_panic [intro]: "reflp R \<Longrightarrow> keeps R (go_panic x)"
  by (simp add: keeps_def reflpD)

lemma keeps_read [intro]: "reflp R \<Longrightarrow> keeps R (go_read x)"
  by (simp add: keeps_def reflpD)

lemma keeps_modify [intro]: "(\<And>s. R s (f s)) \<Longrightarrow> keeps R (go_modify f)"
  by (simp add: keeps_def)

lemma keeps_bind [intro]:
  assumes "transp R" and "keeps R m" and "\<And>x. keeps R (f x)"
  shows "keeps R (go_bind m f)"
  unfolding keeps_def go_bind_def
  using assms by (auto simp: keeps_def split: prod.splits outcome.splits)
    (metis snd_conv transpD)+

lemma keeps_when [intro]: "reflp R \<Longrightarrow> keeps R m \<Longrightarrow> keeps R (go_when b m)"
  by (simp add: go_when_def keeps_return)

lemma keeps_foreach [intro]:
  assumes "reflp R" and "transp R" and "\<And>x. keeps R (f x)"
  shows "keeps R (go_foreach f xs)"
  using assms by (induction xs) (auto intro: keeps_bind keeps_return)

section \<open>Errors\<close>

text \<open>
  The error values the adapter meets: the two context errors, a Kafka protocol error
  (\<open>*kerr.Error\<close>: identity, numeric code and text), any other error (identity and text), and an
  error wrapped by \<open>fmt.Errorf("...%w")\<close>. Two errors are the same Go value when they are the same
  allocation, hence the identities.
\<close>

datatype go_error =
    DeadlineExceeded
  | Canceled
  | KafkaError (kerr_ref: nat) (kerr_Code: int) (kerr_text: string)
  | OtherError (err_ref: nat) (err_text: string)
  | WrapError (wrap_prefix: string) (wrap_inner: go_error)

text \<open>\<open>err.Error()\<close>\<close>

primrec error_string :: "go_error \<Rightarrow> string" where
  "error_string DeadlineExceeded = ''context deadline exceeded''"
| "error_string Canceled = ''context canceled''"
| "error_string (KafkaError r c t) = t"
| "error_string (OtherError r t) = t"
| "error_string (WrapError p e) = p @ error_string e"

text \<open>
  \<open>errors.Is\<close>: the error or one it wraps is the target. None of the errors above has an \<open>Is\<close>
  method of its own, and joined errors (\<open>errors.Join\<close>) are not modelled.
\<close>

primrec errors_Is :: "go_error \<Rightarrow> go_error \<Rightarrow> bool" where
  "errors_Is DeadlineExceeded t = (t = DeadlineExceeded)"
| "errors_Is Canceled t = (t = Canceled)"
| "errors_Is (KafkaError r c x) t = (t = KafkaError r c x)"
| "errors_Is (OtherError r x) t = (t = OtherError r x)"
| "errors_Is (WrapError p e) t = (t = WrapError p e \<or> errors_Is e t)"

text \<open>\<open>errors.As(err, &ke)\<close> with \<open>ke *kerr.Error\<close>: the code of the first Kafka error of the chain.\<close>

primrec errors_As_kerr :: "go_error \<Rightarrow> int option" where
  "errors_As_kerr DeadlineExceeded = None"
| "errors_As_kerr Canceled = None"
| "errors_As_kerr (KafkaError r c x) = Some c"
| "errors_As_kerr (OtherError r x) = None"
| "errors_As_kerr (WrapError p e) = errors_As_kerr e"

lemma errors_Is_refl [simp]: "errors_Is e e"
  by (cases e) simp_all

lemma errors_Is_wrap: "errors_Is e t \<Longrightarrow> errors_Is (WrapError p e) t"
  by simp

section \<open>Durations and instants\<close>

type_synonym duration = int
type_synonym instant = int

abbreviation Millisecond :: duration where "Millisecond \<equiv> 1000000"
abbreviation Second :: duration where "Second \<equiv> 1000000000"
abbreviation Minute :: duration where "Minute \<equiv> 60000000000"
abbreviation Hour :: duration where "Hour \<equiv> 3600000000000"

text \<open>\<open>t.Sub(u)\<close>: the difference, saturated to the range of an \<open>int64\<close>.\<close>

definition time_Sub :: "instant \<Rightarrow> instant \<Rightarrow> duration" where
  "time_Sub t u = max (- (2 ^ 63)) (min (2 ^ 63 - 1) (t - u))"

lemma time_Sub_ge:
  "d \<le> 2 ^ 63 - 1 \<Longrightarrow> - (2 ^ 63) < d \<Longrightarrow> d \<le> time_Sub t u \<longleftrightarrow> u + d \<le> t"
  by (auto simp: time_Sub_def)

lemma time_Sub_mono: "t \<le> t' \<Longrightarrow> time_Sub t u \<le> time_Sub t' u"
  by (auto simp: time_Sub_def)

lemma time_Sub_self [simp]: "time_Sub t t = 0"
  by (simp add: time_Sub_def)

section \<open>Decimal text\<close>

text \<open>\<open>strconv.Itoa\<close> and \<open>strconv.FormatInt(_, 10)\<close>\<close>

definition digit_char :: "nat \<Rightarrow> char" where
  "digit_char d = char_of (48 + d)"

fun nat_dec :: "nat \<Rightarrow> string" where
  "nat_dec n = (if n < 10 then [digit_char n] else nat_dec (n div 10) @ [digit_char (n mod 10)])"

declare nat_dec.simps [simp del]

definition Itoa :: "int \<Rightarrow> string" where
  "Itoa i = (if i < 0 then CHR ''-'' # nat_dec (nat (- i)) else nat_dec (nat i))"

definition undigit :: "char \<Rightarrow> nat" where
  "undigit c = of_char c - 48"

definition undec :: "string \<Rightarrow> nat" where
  "undec = foldl (\<lambda>n c. 10 * n + undigit c) 0"

lemma undigit_digit [simp]: "d < 10 \<Longrightarrow> undigit (digit_char d) = d"
  by (simp add: undigit_def digit_char_def of_char_of)

lemma undec_nat_dec [simp]: "undec (nat_dec n) = n"
proof (induction n rule: nat_dec.induct)
  case (1 n)
  show ?case
    using 1 by (cases "n < 10") (simp_all add: nat_dec.simps [of n] undec_def)
qed

lemma nat_dec_inj [simp]: "nat_dec m = nat_dec n \<longleftrightarrow> m = n"
  by (metis undec_nat_dec)

lemma nat_dec_nonempty [simp]: "nat_dec n \<noteq> []"
  by (simp add: nat_dec.simps [of n])

lemma digit_char_not_dash: "d < 10 \<Longrightarrow> digit_char d \<noteq> CHR ''-''"
proof
  assume "d < 10" and "digit_char d = CHR ''-''"
  then have "(of_char (digit_char d) :: nat) = of_char CHR ''-''" by simp
  with \<open>d < 10\<close> show False by (simp add: digit_char_def of_char_of)
qed

lemma nat_dec_no_dash: "CHR ''-'' \<notin> set (nat_dec n)"
proof (induction n rule: nat_dec.induct)
  case (1 n)
  show ?case
    using 1 digit_char_not_dash [of n] digit_char_not_dash [of "n mod 10"]
    by (cases "n < 10") (auto simp: nat_dec.simps [of n])
qed

lemma Itoa_nonneg: "0 \<le> i \<Longrightarrow> Itoa i = nat_dec (nat i)"
  by (simp add: Itoa_def)

lemma Itoa_inj [simp]: "Itoa i = Itoa j \<longleftrightarrow> i = j"
proof
  assume eq: "Itoa i = Itoa j"
  show "i = j"
  proof (cases "i < 0 \<longleftrightarrow> j < 0")
    case True
    with eq show ?thesis by (auto simp: Itoa_def split: if_splits)
  next
    case False
    with eq nat_dec_no_dash [of "nat i"] nat_dec_no_dash [of "nat j"] show ?thesis
      by (auto simp: Itoa_def split: if_splits) (metis list.set_intros(1))+
  qed
qed simp

text \<open>Two texts cut at their last dash are equal part by part.\<close>

lemma append_dash_inj:
  assumes "xs @ CHR ''-'' # ds = ys @ CHR ''-'' # es"
    and "CHR ''-'' \<notin> set ds" and "CHR ''-'' \<notin> set es"
  shows "xs = ys \<and> ds = es"
  using assms by (auto simp: append_eq_append_conv2 append_eq_Cons_conv Cons_eq_append_conv)

section \<open>Sums\<close>

lemma add_exchange:
  fixes a :: "'a::comm_monoid_add"
  assumes "a + x = u + b" and "b + y = v + c"
  shows "a + (x + y) = u + v + c"
  using assms by (metis add.assoc)

section \<open>Maps\<close>

type_synonym ('k, 'v) gomap = "('k \<times> 'v) list"

abbreviation gm_put :: "'k \<Rightarrow> 'v \<Rightarrow> ('k, 'v) gomap \<Rightarrow> ('k, 'v) gomap" where
  "gm_put \<equiv> AList.update"

abbreviation gm_delete :: "'k \<Rightarrow> ('k, 'v) gomap \<Rightarrow> ('k, 'v) gomap" where
  "gm_delete \<equiv> AList.delete"

abbreviation gm_keys :: "('k, 'v) gomap \<Rightarrow> 'k list" where
  "gm_keys m \<equiv> map fst m"

text \<open>A slice-valued entry: a missing key reads as the nil slice.\<close>

definition gm_slice :: "('k, 'v list) gomap \<Rightarrow> 'k \<Rightarrow> 'v list" where
  "gm_slice m k = (case map_of m k of None \<Rightarrow> [] | Some vs \<Rightarrow> vs)"

lemma gm_slice_Nil [simp]: "gm_slice [] k = []"
  by (simp add: gm_slice_def)

lemma gm_slice_put [simp]: "gm_slice (gm_put k v m) k' = (if k' = k then v else gm_slice m k')"
  by (simp add: gm_slice_def update_conv')

lemma gm_put_keys: "set (gm_keys (gm_put k v m)) = insert k (set (gm_keys m))"
  by (simp add: dom_update)

lemma gm_delete_get: "map_of (gm_delete k m) k' = (if k' = k then None else map_of m k')"
  by (simp add: delete_conv')

lemma gm_put_get: "map_of (gm_put k v m) k' = (if k' = k then Some v else map_of m k')"
  by (simp add: update_conv')

lemmas gm_simps = gm_put_get gm_delete_get

text \<open>
  The order a \<open>range\<close> loop visits a map in: any rearrangement of its entries.
\<close>

definition range_order :: "('a list \<Rightarrow> 'a list) \<Rightarrow> bool" where
  "range_order f = (\<forall>m. mset (f m) = mset m)"

lemma range_order_id [simp, intro]: "range_order (\<lambda>m. m)"
  by (simp add: range_order_def)

lemma range_order_rev [simp, intro]: "range_order rev"
  by (simp add: range_order_def)

lemma range_order_mset: "range_order f \<Longrightarrow> mset (f m) = mset m"
  by (simp add: range_order_def)

lemma range_order_set: "range_order f \<Longrightarrow> set (f m) = set m"
  by (metis range_order_mset set_mset_mset)

lemma range_order_length: "range_order f \<Longrightarrow> length (f m) = length m"
  by (metis range_order_mset size_mset)

text \<open>Visiting a map in any order meets each key exactly once.\<close>

lemma filter_key_map_of:
  "distinct (gm_keys m) \<Longrightarrow>
   filter (\<lambda>e. fst e = k) m = (case map_of m k of None \<Rightarrow> [] | Some v \<Rightarrow> [(k, v)])"
proof (induction m)
  case (Cons e m)
  show ?case
  proof (cases "fst e = k")
    case True
    with Cons.prems have "\<forall>x \<in> set m. fst x \<noteq> k" by (auto simp: rev_image_eqI)
    then have "filter (\<lambda>e. fst e = k) m = []" by (simp add: filter_empty_conv)
    with True show ?thesis by (cases e) simp
  next
    case False
    with Cons show ?thesis by (cases e) simp
  qed
qed simp

lemma range_filter_key:
  assumes "range_order f" and "distinct (gm_keys m)"
  shows "filter (\<lambda>e. fst e = k) (f m) = (case map_of m k of None \<Rightarrow> [] | Some v \<Rightarrow> [(k, v)])"
proof -
  have "mset (filter (\<lambda>e. fst e = k) (f m)) = mset (filter (\<lambda>e. fst e = k) m)"
    by (simp add: range_order_mset [OF assms(1)])
  then show ?thesis
    unfolding filter_key_map_of [OF assms(2)]
    by (cases "map_of m k") (simp_all only: option.case mset_zero_iff mset_single_iff mset.simps)
qed

text \<open>
  The interface the components use: a lookup after an assignment or a deletion, and that the
  representation stays well-formed (no key twice).
\<close>

locale go_map =
  fixes get :: "'m \<Rightarrow> 'k \<Rightarrow> 'v option"
    and put :: "'k \<Rightarrow> 'v \<Rightarrow> 'm \<Rightarrow> 'm"
    and del :: "'k \<Rightarrow> 'm \<Rightarrow> 'm"
    and wf :: "'m \<Rightarrow> bool"
  assumes get_put: "get (put k v m) k' = (if k' = k then Some v else get m k')"
    and get_del: "get (del k m) k' = (if k' = k then None else get m k')"
    and wf_put: "wf m \<Longrightarrow> wf (put k v m)"
    and wf_del: "wf m \<Longrightarrow> wf (del k m)"
begin

lemma get_fold_del: "get (fold del ks m) k = (if k \<in> set ks then None else get m k)"
  by (induction ks arbitrary: m) (auto simp: get_del)

lemma wf_fold_del: "wf m \<Longrightarrow> wf (fold del ks m)"
  by (induction ks arbitrary: m) (auto simp: wf_del)

lemma get_fold_put:
  "get (fold (\<lambda>k. put k (f k)) ks m) k = (if k \<in> set ks then Some (f k) else get m k)"
  by (induction ks arbitrary: m) (auto simp: get_put)

end

interpretation alist_map: go_map map_of gm_put gm_delete "\<lambda>m. distinct (gm_keys m)"
  by unfold_locales (simp_all add: gm_simps distinct_update distinct_delete)

section \<open>sync.Once\<close>

text \<open>
  What a \<open>sync.Once\<close> promises to the callers of a guarded operation: the first call runs it
  and marks it done, and every later call, whatever its environment, changes nothing.
\<close>

locale once_guard =
  fixes fired :: "'s \<Rightarrow> bool"
    and call :: "'e \<Rightarrow> 's \<Rightarrow> 's"
  assumes call_fires: "fired (call e s)"
    and fired_idle: "fired s \<Longrightarrow> call e s = s"
begin

lemma call_call: "call e' (call e s) = call e s"
  by (simp add: fired_idle call_fires)

lemma later_calls_idle: "fired s \<Longrightarrow> fold call es s = s"
  by (induction es) (simp_all add: fired_idle)

lemma only_first_call_counts: "fold call (e # es) s = call e s"
  by (simp add: later_calls_idle call_fires)

end

section \<open>Step relations\<close>

locale transition_invariant =
  fixes start :: "'s \<Rightarrow> bool"
    and step :: "'s \<Rightarrow> 's \<Rightarrow> bool"
    and inv :: "'s \<Rightarrow> bool"
  assumes start_inv: "start s \<Longrightarrow> inv s"
    and step_inv: "step s t \<Longrightarrow> inv s \<Longrightarrow> inv t"
begin

lemma steps_inv: "step\<^sup>*\<^sup>* s t \<Longrightarrow> inv s \<Longrightarrow> inv t"
  by (induction rule: rtranclp_induct) (auto intro: step_inv)

lemma reachable_inv: "start s \<Longrightarrow> step\<^sup>*\<^sup>* s t \<Longrightarrow> inv t"
  by (blast intro: steps_inv start_inv)

end

text \<open>
  Every step of the implementation is a step of the specification on the abstracted state, or
  leaves that state as it is; then every run is a run of the specification.
\<close>

locale simulation = transition_invariant start step inv
  for start :: "'s \<Rightarrow> bool" and step :: "'s \<Rightarrow> 's \<Rightarrow> bool" and inv :: "'s \<Rightarrow> bool" +
  fixes abs_state :: "'s \<Rightarrow> 'a"
    and spec_step :: "'a \<Rightarrow> 'a \<Rightarrow> bool"
  assumes simulates: "step s t \<Longrightarrow> inv s \<Longrightarrow> spec_step (abs_state s) (abs_state t) \<or> abs_state t = abs_state s"
begin

lemma run_simulates: "step\<^sup>*\<^sup>* s t \<Longrightarrow> inv s \<Longrightarrow> spec_step\<^sup>*\<^sup>* (abs_state s) (abs_state t)"
proof (induction rule: rtranclp_induct)
  case (step t u)
  then have "inv t" using steps_inv by blast
  from simulates [OF step.hyps(2) this] step.IH [OF step.prems] show ?case by auto
qed simp

end

end
