(* ===== verification/Adapter_Options.thy ===== *)
theory Adapter_Options
  imports Franz_Prelude
begin

text \<open>
  The adapter's own options (\<open>franzadapter/adapter_options.go\<close>): the resolved configuration, the
  \<open>With...\<close> helpers, the fold over the defaults and the clamping that \<open>validate\<close> does.
  The locale \<open>duration_clamp\<close> is the contract of a clamped duration (non-positive disables it,
  the rest is forced into a range); both clamps of the code are interpretations of it.
\<close>

section \<open>Configuration\<close>

text \<open>\<open>kgo.LogLevel\<close>; the constants are the client library's, ordered by verbosity.\<close>

datatype LogLevel = LogLevelNone | LogLevelError | LogLevelWarn | LogLevelInfo | LogLevelDebug

record adapterOptions =
  pollErrorLogInterval :: duration
  pollErrorBailAfter :: duration
  pollErrorBackoff :: duration
  assignmentOffsetLookup :: bool
  clientLogLevel :: LogLevel

abbreviation defaultPollErrorLogInterval :: duration where
  "defaultPollErrorLogInterval \<equiv> Second"

abbreviation defaultPollErrorBailAfter :: duration where
  "defaultPollErrorBailAfter \<equiv> 10 * Minute"

abbreviation minPollErrorBailAfter :: duration where
  "minPollErrorBailAfter \<equiv> Minute"

abbreviation maxPollErrorBailAfter :: duration where
  "maxPollErrorBailAfter \<equiv> Hour"

abbreviation defaultPollErrorBackoff :: duration where
  "defaultPollErrorBackoff \<equiv> 25 * Millisecond"

abbreviation maxPollErrorBackoff :: duration where
  "maxPollErrorBackoff \<equiv> 5 * Second"

text \<open>\<open>AdapterOption\<close> is a function on the options; a nil option is \<open>None\<close>.\<close>

type_synonym AdapterOption = "adapterOptions \<Rightarrow> adapterOptions"

definition WithPollErrorLogInterval :: "duration \<Rightarrow> AdapterOption" where
  "WithPollErrorLogInterval d = (\<lambda>o'. o'\<lparr>pollErrorLogInterval := d\<rparr>)"

definition WithPollErrorBailAfter :: "duration \<Rightarrow> AdapterOption" where
  "WithPollErrorBailAfter d = (\<lambda>o'. o'\<lparr>pollErrorBailAfter := d\<rparr>)"

definition WithPollErrorBackoff :: "duration \<Rightarrow> AdapterOption" where
  "WithPollErrorBackoff d = (\<lambda>o'. o'\<lparr>pollErrorBackoff := d\<rparr>)"

definition WithClientLogLevel :: "LogLevel \<Rightarrow> AdapterOption" where
  "WithClientLogLevel level = (\<lambda>o'. o'\<lparr>clientLogLevel := level\<rparr>)"

definition WithAssignmentOffsetLookup :: "bool \<Rightarrow> AdapterOption" where
  "WithAssignmentOffsetLookup enabled = (\<lambda>o'. o'\<lparr>assignmentOffsetLookup := enabled\<rparr>)"

definition defaultAdapterOptions :: adapterOptions where
  "defaultAdapterOptions =
     \<lparr>pollErrorLogInterval = defaultPollErrorLogInterval,
      pollErrorBailAfter = defaultPollErrorBailAfter,
      pollErrorBackoff = defaultPollErrorBackoff,
      assignmentOffsetLookup = True,
      clientLogLevel = LogLevelInfo\<rparr>"

definition clampBailAfter :: "duration \<Rightarrow> duration" where
  "clampBailAfter d =
     (if d \<le> 0 then 0
      else if d < minPollErrorBailAfter then minPollErrorBailAfter
      else if d > maxPollErrorBailAfter then maxPollErrorBailAfter
      else d)"

definition clampBackoff :: "duration \<Rightarrow> duration" where
  "clampBackoff d =
     (if d \<le> 0 then 0
      else if d > maxPollErrorBackoff then maxPollErrorBackoff
      else d)"

definition validate :: "adapterOptions \<Rightarrow> adapterOptions" where
  "validate o' =
     (let o1 = (if pollErrorLogInterval o' \<le> 0
                then o'\<lparr>pollErrorLogInterval := defaultPollErrorLogInterval\<rparr> else o');
          o2 = o1\<lparr>pollErrorBailAfter := clampBailAfter (pollErrorBailAfter o1)\<rparr>
      in o2\<lparr>pollErrorBackoff := clampBackoff (pollErrorBackoff o2)\<rparr>)"

fun applyOptions :: "AdapterOption option list \<Rightarrow> adapterOptions \<Rightarrow> adapterOptions" where
  "applyOptions [] o' = o'"
| "applyOptions (opt # options) o' =
     applyOptions options (case opt of None \<Rightarrow> o' | Some f \<Rightarrow> f o')"

definition processAdapterOptions :: "AdapterOption option list \<Rightarrow> adapterOptions" where
  "processAdapterOptions options = validate (applyOptions options defaultAdapterOptions)"

lemmas with_option_defs = WithPollErrorLogInterval_def WithPollErrorBailAfter_def
  WithPollErrorBackoff_def WithClientLogLevel_def WithAssignmentOffsetLookup_def

section \<open>The clamp contract\<close>

locale duration_clamp =
  fixes clamp :: "duration \<Rightarrow> duration" and lo :: duration and hi :: duration
  assumes range_ok: "0 < lo" "lo \<le> hi"
    and disabled: "d \<le> 0 \<Longrightarrow> clamp d = 0"
    and too_low: "0 < d \<Longrightarrow> d < lo \<Longrightarrow> clamp d = lo"
    and too_high: "hi < d \<Longrightarrow> clamp d = hi"
    and in_range: "lo \<le> d \<Longrightarrow> d \<le> hi \<Longrightarrow> clamp d = d"
begin

lemma clamp_cases: "clamp d = 0 \<and> d \<le> 0 \<or> lo \<le> clamp d \<and> clamp d \<le> hi \<and> 0 < d"
  using range_ok disabled [of d] too_low [of d] too_high [of d] in_range [of d]
  by (cases "d \<le> 0"; cases "d < lo"; cases "hi < d") auto

lemma clamp_idem: "clamp (clamp d) = clamp d"
  using clamp_cases [of d] in_range disabled [of 0] by auto

lemma clamp_mono: "d \<le> e \<Longrightarrow> clamp d \<le> clamp e"
  using range_ok disabled [of d] too_low [of d] too_high [of d] in_range [of d] clamp_cases [of e]
    disabled [of e] too_low [of e] too_high [of e] in_range [of e]
  by (cases "d \<le> 0"; cases "d < lo"; cases "hi < d"; cases "e < lo"; cases "hi < e") auto

lemma clamp_zero_iff: "clamp d = 0 \<longleftrightarrow> d \<le> 0"
  using clamp_cases [of d] range_ok disabled by auto

end

interpretation bail_clamp: duration_clamp clampBailAfter minPollErrorBailAfter maxPollErrorBailAfter
  by unfold_locales (simp_all add: clampBailAfter_def)

interpretation backoff_clamp: duration_clamp clampBackoff 1 maxPollErrorBackoff
  by unfold_locales (simp_all add: clampBackoff_def)

section \<open>Every resolved configuration is in range\<close>

definition options_ok :: "adapterOptions \<Rightarrow> bool" where
  "options_ok o' \<longleftrightarrow>
     0 < pollErrorLogInterval o' \<and>
     (pollErrorBailAfter o' = 0 \<or>
      minPollErrorBailAfter \<le> pollErrorBailAfter o' \<and> pollErrorBailAfter o' \<le> maxPollErrorBailAfter) \<and>
     0 \<le> pollErrorBackoff o' \<and> pollErrorBackoff o' \<le> maxPollErrorBackoff"

lemma validate_ok: "options_ok (validate o')"
  using bail_clamp.clamp_cases [of "pollErrorBailAfter o'"]
    backoff_clamp.clamp_cases [of "pollErrorBackoff o'"]
  by (auto simp: options_ok_def validate_def Let_def)

lemma validate_fixes_ok: "options_ok o' \<Longrightarrow> validate o' = o'"
  by (cases o') (auto simp: options_ok_def validate_def Let_def clampBailAfter_def clampBackoff_def)

lemma validate_idem: "validate (validate o') = validate o'"
  by (simp add: validate_fixes_ok validate_ok)

lemma applyOptions_append: "applyOptions (xs @ ys) o' = applyOptions ys (applyOptions xs o')"
  by (induction xs arbitrary: o') simp_all

lemma default_options_ok: "options_ok defaultAdapterOptions"
  by (simp add: options_ok_def defaultAdapterOptions_def)

text \<open>
  C29. Whatever options a caller passes, nil options included, the resolved configuration is in
  range (a positive log interval, a bail threshold that is disabled or between a minute and an
  hour, a backoff between zero and five seconds), validating it again changes nothing, and with
  no option set the defaults come out unchanged.
\<close>

theorem processAdapterOptions_in_range:
  "options_ok (processAdapterOptions options) \<and>
   validate (processAdapterOptions options) = processAdapterOptions options \<and>
   processAdapterOptions (replicate n None) = defaultAdapterOptions"
proof -
  have "applyOptions (replicate n None) o' = o'" for o'
    by (induction n) simp_all
  then show ?thesis
    by (simp add: processAdapterOptions_def validate_ok validate_idem
        validate_fixes_ok default_options_ok)
qed

text \<open>
  C36. The last setting of the bail threshold wins, whatever came before it, and is clamped: a
  non-positive value disables the bail, a positive one ends up between a minute and an hour, and
  a larger request never yields a smaller threshold; options set after it that do not touch the
  threshold leave it alone.
\<close>

theorem bail_threshold_last_wins:
  assumes "\<And>o'. pollErrorBailAfter (applyOptions later o') = pollErrorBailAfter o'"
  shows "pollErrorBailAfter
           (processAdapterOptions (earlier @ Some (WithPollErrorBailAfter d) # later)) =
           clampBailAfter d \<and>
         (clampBailAfter d = 0 \<longleftrightarrow> d \<le> 0) \<and>
         (d \<le> e \<longrightarrow> clampBailAfter d \<le> clampBailAfter e)"
proof -
  have "pollErrorBailAfter (validate o') = clampBailAfter (pollErrorBailAfter o')" for o'
    by (simp add: validate_def Let_def)
  then show ?thesis
    using assms bail_clamp.clamp_zero_iff bail_clamp.clamp_mono
    by (simp add: processAdapterOptions_def applyOptions_append with_option_defs)
qed

theorem bail_threshold_last_wins_witness:
  "pollErrorBailAfter (processAdapterOptions
     [Some (WithPollErrorBailAfter Hour), None, Some (WithPollErrorBailAfter Second),
      Some (WithPollErrorBackoff 0)]) = Minute"
  using bail_threshold_last_wins
    [where earlier = "[Some (WithPollErrorBailAfter Hour), None]" and d = Second and e = Second
      and later = "[Some (WithPollErrorBackoff 0)]"]
  by (simp add: with_option_defs clampBailAfter_def)

end
