(* ===== verification/Client_Log.thy ===== *)
theory Client_Log
  imports Adapter_Options
begin

text \<open>
  The bridge from franz-go's internal logger to the consumer's logger
  (\<open>franzadapter/client_logger.go\<close>). The bridge is created with the client, before the consumer
  exists; its target is attached later, and lines logged before that are dropped. A key or value
  is given as the text the verb \<open>%v\<close> renders for it.
\<close>

datatype severity = SevError | SevWarn | SevInfo | SevDebug

record clientLogTarget =
  target_ctx :: nat
  target_logger :: nat

record clientLogBridge =
  level :: LogLevel
  target :: "clientLogTarget option"

definition newClientLogBridge :: "LogLevel \<Rightarrow> clientLogBridge" where
  "newClientLogBridge l = \<lparr>level = l, target = None\<rparr>"

text \<open>\<open>attach\<close>: a nil logger leaves the bridge as it is.\<close>

definition attach :: "nat \<Rightarrow> nat option \<Rightarrow> clientLogBridge \<Rightarrow> clientLogBridge" where
  "attach c l b =
     (case l of
        None \<Rightarrow> b
      | Some lg \<Rightarrow> b\<lparr>target := Some \<lparr>target_ctx = c, target_logger = lg\<rparr>\<rparr>)"

definition Level :: "clientLogBridge \<Rightarrow> LogLevel" where
  "Level b = level b"

text \<open>The loop of \<open>formatClientLog\<close>; the flag says that it is the first round.\<close>

fun format_keyvals :: "bool \<Rightarrow> string list \<Rightarrow> string" where
  "format_keyvals first [] = []"
| "format_keyvals first [k] = (if first then '';'' else []) @ '' '' @ k"
| "format_keyvals first (k # v # rest) =
     (if first then '';'' else []) @ '' '' @ k @ ''='' @ v @ format_keyvals False rest"

definition formatClientLog :: "string \<Rightarrow> string list \<Rightarrow> string" where
  "formatClientLog msg keyvals = ''franz-go: '' @ msg @ format_keyvals True keyvals"

text \<open>A call of the target logger: its severity, context, logger and line.\<close>

type_synonym logger_call = "severity \<times> nat \<times> nat \<times> string"

definition severity_of :: "LogLevel \<Rightarrow> severity" where
  "severity_of l =
     (case l of LogLevelError \<Rightarrow> SevError | LogLevelWarn \<Rightarrow> SevWarn | LogLevelInfo \<Rightarrow> SevInfo
      | _ \<Rightarrow> SevDebug)"

definition Log :: "clientLogBridge \<Rightarrow> LogLevel \<Rightarrow> string \<Rightarrow> string list \<Rightarrow> logger_call list" where
  "Log b l msg keyvals =
     (case target b of
        None \<Rightarrow> []
      | Some t \<Rightarrow>
          [(severity_of l, target_ctx t, target_logger t, formatClientLog msg keyvals)])"

section \<open>Properties\<close>

text \<open>The pairs of a keyval list, and how the format documents them.\<close>

fun render_pairs :: "string list \<Rightarrow> string list" where
  "render_pairs [] = []"
| "render_pairs [k] = [k]"
| "render_pairs (k # v # rest) = (k @ ''='' @ v) # render_pairs rest"

lemma format_keyvals_False:
  "format_keyvals False kvs = concat (map (\<lambda>p. CHR '' '' # p) (render_pairs kvs))"
  by (induction kvs rule: render_pairs.induct) simp_all

lemma format_keyvals_True:
  "format_keyvals True kvs =
     (if kvs = [] then [] else '';'' @ concat (map (\<lambda>p. CHR '' '' # p) (render_pairs kvs)))"
  by (cases kvs rule: render_pairs.cases) (simp_all add: format_keyvals_False)

text \<open>
  The life of a bridge: the consumer's logger is attached, and the client logs, in any order.
\<close>

datatype bridge_event = Attach nat "nat option" | ClientLog LogLevel string "string list"

fun bridge_run :: "bridge_event list \<Rightarrow> clientLogBridge \<Rightarrow> logger_call list" where
  "bridge_run [] b = []"
| "bridge_run (Attach c l # es) b = bridge_run es (attach c l b)"
| "bridge_run (ClientLog lv msg kvs # es) b = Log b lv msg kvs @ bridge_run es b"

fun attaches :: "bridge_event \<Rightarrow> bool" where
  "attaches (Attach c l) = (l \<noteq> None)"
| "attaches (ClientLog lv msg kvs) = False"

fun client_lines :: "bridge_event list \<Rightarrow> (LogLevel \<times> string \<times> string list) list" where
  "client_lines [] = []"
| "client_lines (Attach c l # es) = client_lines es"
| "client_lines (ClientLog lv msg kvs # es) = (lv, msg, kvs) # client_lines es"

definition bridge_after :: "bridge_event list \<Rightarrow> clientLogBridge \<Rightarrow> clientLogBridge" where
  "bridge_after es b = fold (\<lambda>e b. case e of Attach c l \<Rightarrow> attach c l b | ClientLog _ _ _ \<Rightarrow> b) es b"

lemma bridge_run_append: "bridge_run (es @ fs) b = bridge_run es b @ bridge_run fs (bridge_after es b)"
  by (induction es b rule: bridge_run.induct) (simp_all add: bridge_after_def)

lemma bridge_after_level: "level (bridge_after es b) = level b"
  by (induction es arbitrary: b)
    (auto simp: bridge_after_def attach_def split: bridge_event.split option.split)

lemma attach_overrides: "level b = level b' \<Longrightarrow> attach c (Some lg) b = attach c (Some lg) b'"
  by (simp add: attach_def)

lemma bridge_run_unattached:
  "target b = None \<Longrightarrow> \<forall>e \<in> set es. \<not> attaches e \<Longrightarrow> bridge_run es b = []"
  by (induction es b rule: bridge_run.induct) (auto simp: attach_def Log_def)

lemma bridge_run_attached:
  "target b = Some \<lparr>target_ctx = c, target_logger = lg\<rparr> \<Longrightarrow> \<forall>e \<in> set es. \<not> attaches e \<Longrightarrow>
   bridge_run es b =
     map (\<lambda>(lv, msg, kvs). (severity_of lv, c, lg, formatClientLog msg kvs)) (client_lines es)"
  by (induction es b rule: bridge_run.induct) (auto simp: attach_def Log_def)

lemma line_shape:
  "(severity_of v, c, lg, formatClientLog msg kvs) =
     (if v = LogLevelError then SevError else if v = LogLevelWarn then SevWarn
      else if v = LogLevelInfo then SevInfo else SevDebug, c, lg,
      ''franz-go: '' @ msg @
      (if kvs = [] then [] else '';'' @ concat (map (\<lambda>p. CHR '' '' # p) (render_pairs kvs))))"
  by (cases v) (simp_all add: severity_of_def formatClientLog_def format_keyvals_True)

text \<open>
  C37. Which client lines reach the consumer's logger, where, how loud and in what form: those
  logged before the first non-nil logger is attached are dropped; afterwards every line, in order,
  goes once to the attached logger, nil attachments notwithstanding, until another logger takes
  over. Errors stay errors, warnings warnings and infos infos; debug and any other level become
  debug lines. The line is the marker, the message and, if there are key-value pairs, a
  semicolon followed by each pair as \<open>key=value\<close> after a blank, a trailing key standing alone.
\<close>

theorem client_log_bridge_spec:
  assumes "\<forall>e \<in> set pre. \<not> attaches e" and "\<forall>e \<in> set post. \<not> attaches e"
  shows "bridge_run (pre @ Attach c (Some lg) # post) (newClientLogBridge l) =
     map (\<lambda>(lv, msg, kvs).
            (if lv = LogLevelError then SevError else if lv = LogLevelWarn then SevWarn
             else if lv = LogLevelInfo then SevInfo else SevDebug,
             c, lg,
             ''franz-go: '' @ msg @
             (if kvs = [] then [] else '';'' @ concat (map (\<lambda>p. CHR '' '' # p) (render_pairs kvs)))))
       (client_lines post) \<and>
   bridge_run (pre @ Attach c (Some lg) # post @ Attach c' (Some lg') # rest) (newClientLogBridge l) =
     bridge_run (pre @ Attach c (Some lg) # post) (newClientLogBridge l) @
     bridge_run (Attach c' (Some lg') # rest) (newClientLogBridge l)"
proof (rule conjI)
  have pre: "bridge_run pre (newClientLogBridge l) = []"
    by (rule bridge_run_unattached [OF _ assms(1)]) (simp add: newClientLogBridge_def)
  show "bridge_run (pre @ Attach c (Some lg) # post) (newClientLogBridge l) =
     map (\<lambda>(lv, msg, kvs).
            (if lv = LogLevelError then SevError else if lv = LogLevelWarn then SevWarn
             else if lv = LogLevelInfo then SevInfo else SevDebug,
             c, lg,
             ''franz-go: '' @ msg @
             (if kvs = [] then [] else '';'' @ concat (map (\<lambda>p. CHR '' '' # p) (render_pairs kvs)))))
       (client_lines post)"
    unfolding line_shape [symmetric]
    by (simp add: bridge_run_append pre, rule bridge_run_attached [OF _ assms(2)]) (simp add: attach_def)
  show "bridge_run (pre @ Attach c (Some lg) # post @ Attach c' (Some lg') # rest) (newClientLogBridge l) =
     bridge_run (pre @ Attach c (Some lg) # post) (newClientLogBridge l) @
     bridge_run (Attach c' (Some lg') # rest) (newClientLogBridge l)"
    by (simp add: bridge_run_append)
      (subst attach_overrides [of _ "newClientLogBridge l"], simp_all add: bridge_after_level attach_def)
qed

theorem client_log_bridge_spec_witness:
  "bridge_run [ClientLog LogLevelError ''early'' [], Attach 1 (Some 2), Attach 1 None,
               ClientLog LogLevelWarn ''joined'' [''group'', ''g'', ''odd'']] (newClientLogBridge LogLevelInfo) =
     [(SevWarn, 1, 2, ''franz-go: joined; group=g odd'')]"
  using client_log_bridge_spec [of "[ClientLog LogLevelError ''early'' []]"
      "[Attach 1 None, ClientLog LogLevelWarn ''joined'' [''group'', ''g'', ''odd'']]" 1 2 LogLevelInfo]
  by simp

end
