(* ===== verification/Go_Text.thy ===== *)
theory Go_Text
  imports Franz_Prelude
begin

text \<open>
  The byte-level text functions of Go's standard library that the adapter calls:
  \<open>utf8.Valid\<close>, \<open>base64.StdEncoding.EncodeToString\<close>, the hexadecimal verb of \<open>fmt.Sprintf\<close> on a
  byte slice, and the conversion \<open>string(bytes)\<close>. A Go string is a sequence of bytes, so the
  model's strings are lists of 8-bit characters. Base64 comes with a decoder and a round trip.
\<close>

type_synonym byte = "8 word"

section \<open>Bytes as characters\<close>

definition byte_char :: "byte \<Rightarrow> char" where
  "byte_char b = char_of (unat b)"

definition bytes_to_string :: "byte list \<Rightarrow> string" where
  "bytes_to_string = map byte_char"

lemma unat_byte_less [simp]: "unat (b :: byte) < 256"
  using unsigned_less [of b] by simp

lemma byte_char_inj [simp]: "byte_char a = byte_char b \<longleftrightarrow> a = b"
proof
  assume "byte_char a = byte_char b"
  then have "(of_char (byte_char a) :: nat) = of_char (byte_char b)" by simp
  then have "unat a = unat b" by (simp add: byte_char_def of_char_of)
  then show "a = b" by (rule unsigned_word_eqI)
qed simp

lemma bytes_to_string_inj [simp]: "bytes_to_string xs = bytes_to_string ys \<longleftrightarrow> xs = ys"
  unfolding bytes_to_string_def by (rule inj_map_eq_map) (simp add: inj_def)

section \<open>UTF-8 validity\<close>

text \<open>
  \<open>utf8.Valid\<close>: the well-formed byte sequences of the standard. Overlong encodings, the surrogate
  range and values beyond U+10FFFF are refused by the bounds on the second byte.
\<close>

definition in_bytes :: "nat \<Rightarrow> nat \<Rightarrow> byte \<Rightarrow> bool" where
  "in_bytes lo hi b = (lo \<le> unat b \<and> unat b \<le> hi)"

abbreviation continuation :: "byte \<Rightarrow> bool" where
  "continuation \<equiv> in_bytes 128 191"

text \<open>The number of bytes a first byte announces, and the bounds on the byte after it.\<close>

definition utf8_lead :: "byte \<Rightarrow> (nat \<times> nat \<times> nat) option" where
  "utf8_lead b =
     (if in_bytes 0 127 b then Some (1, 0, 0)
      else if in_bytes 194 223 b then Some (2, 128, 191)
      else if in_bytes 224 224 b then Some (3, 160, 191)
      else if in_bytes 225 236 b then Some (3, 128, 191)
      else if in_bytes 237 237 b then Some (3, 128, 159)
      else if in_bytes 238 239 b then Some (3, 128, 191)
      else if in_bytes 240 240 b then Some (4, 144, 191)
      else if in_bytes 241 243 b then Some (4, 128, 191)
      else if in_bytes 244 244 b then Some (4, 128, 143)
      else None)"

fun utf8_Valid :: "byte list \<Rightarrow> bool" where
  "utf8_Valid [] = True"
| "utf8_Valid (b # bs) =
     (case utf8_lead b of
        None \<Rightarrow> False
      | Some (n, lo, hi) \<Rightarrow>
          if n = 1 then utf8_Valid bs
          else (case bs of
                  [] \<Rightarrow> False
                | b1 # bs1 \<Rightarrow>
                    in_bytes lo hi b1 \<and>
                    (if n = 2 then utf8_Valid bs1
                     else (case bs1 of
                             [] \<Rightarrow> False
                           | b2 # bs2 \<Rightarrow>
                               continuation b2 \<and>
                               (if n = 3 then utf8_Valid bs2
                                else (case bs2 of
                                        [] \<Rightarrow> False
                                      | b3 # bs3 \<Rightarrow> continuation b3 \<and> utf8_Valid bs3))))))"

lemma utf8_ascii: "\<forall>b \<in> set bs. unat b < 128 \<Longrightarrow> utf8_Valid bs"
  by (induction bs) (auto simp: utf8_lead_def in_bytes_def)

section \<open>Base64\<close>

definition base64_alphabet :: string where
  "base64_alphabet = ''ABCDEFGHIJKLMNOPQRSTUVWXYZabcdefghijklmnopqrstuvwxyz0123456789+/''"

definition b64_char :: "nat \<Rightarrow> char" where
  "b64_char i = base64_alphabet ! (i mod 64)"

text \<open>\<open>base64.StdEncoding.EncodeToString\<close>: groups of three bytes, the last one padded.\<close>

fun base64_Encode :: "byte list \<Rightarrow> string" where
  "base64_Encode [] = []"
| "base64_Encode [a] =
     (let val = unat a * 65536
      in [b64_char (val div 262144), b64_char (val div 4096), CHR ''='', CHR ''=''])"
| "base64_Encode [a, b] =
     (let val = unat a * 65536 + unat b * 256
      in [b64_char (val div 262144), b64_char (val div 4096), b64_char (val div 64), CHR ''=''])"
| "base64_Encode (a # b # c # rest) =
     (let val = unat a * 65536 + unat b * 256 + unat c
      in b64_char (val div 262144) # b64_char (val div 4096) # b64_char (val div 64) #
         b64_char val # base64_Encode rest)"

text \<open>A decoder, as the reference for the round trip.\<close>

fun index_of :: "'a \<Rightarrow> 'a list \<Rightarrow> nat" where
  "index_of x [] = 0"
| "index_of x (y # ys) = (if x = y then 0 else Suc (index_of x ys))"

definition b64_value :: "char \<Rightarrow> nat" where
  "b64_value c = index_of c base64_alphabet"

definition b64_group :: "char \<Rightarrow> char \<Rightarrow> char \<Rightarrow> char \<Rightarrow> byte list" where
  "b64_group c0 c1 c2 c3 =
     (let val = b64_value c0 * 262144 + b64_value c1 * 4096 +
                (if c2 = CHR ''='' then 0 else b64_value c2 * 64) +
                (if c3 = CHR ''='' then 0 else b64_value c3);
          a = of_nat (val div 65536);
          b = of_nat (val div 256 mod 256);
          c = of_nat (val mod 256)
      in if c2 = CHR ''='' then [a] else if c3 = CHR ''='' then [a, b] else [a, b, c])"

fun base64_Decode :: "string \<Rightarrow> byte list" where
  "base64_Decode (c0 # c1 # c2 # c3 # rest) = b64_group c0 c1 c2 c3 @ base64_Decode rest"
| "base64_Decode _ = []"

lemma index_of_nth: "distinct xs \<Longrightarrow> i < length xs \<Longrightarrow> index_of (xs ! i) xs = i"
proof (induction xs arbitrary: i)
  case (Cons x xs)
  then show ?case
    by (cases i) auto
qed simp

lemma alphabet_length [simp]: "length base64_alphabet = 64"
  by (simp add: base64_alphabet_def)

lemma alphabet_distinct: "distinct base64_alphabet"
  by (simp add: base64_alphabet_def)

lemma alphabet_no_pad: "CHR ''='' \<notin> set base64_alphabet"
  by (simp add: base64_alphabet_def)

lemma b64_value_char [simp]: "b64_value (b64_char i) = i mod 64"
  by (simp add: b64_value_def b64_char_def index_of_nth alphabet_distinct)

lemma b64_char_not_pad [simp]: "b64_char i \<noteq> CHR ''=''"
  by (metis alphabet_length alphabet_no_pad b64_char_def mod_less_divisor nth_mem zero_less_numeral)

lemma val_recombine:
  fixes v :: nat
  assumes "v < 16777216"
  shows "v div 262144 mod 64 * 262144 + v div 4096 mod 64 * 4096 + v div 64 mod 64 * 64 + v mod 64 = v"
proof -
  have e2: "v div 4096 = v div 64 div 64" and e3: "v div 262144 = v div 64 div 64 div 64"
    by (simp_all add: div_mult2_eq [symmetric])
  have "v div 64 div 64 div 64 < 64"
    using assms by (simp add: div_mult2_eq [symmetric] less_mult_imp_div_less)
  then have "v div 64 div 64 div 64 mod 64 = v div 64 div 64 div 64" by simp
  moreover have "v div 64 div 64 div 64 * 64 + v div 64 div 64 mod 64 = v div 64 div 64"
    "v div 64 div 64 * 64 + v div 64 mod 64 = v div 64" "v div 64 * 64 + v mod 64 = v"
    by (rule div_mult_mod_eq)+
  ultimately show ?thesis
    unfolding e2 e3 by linarith
qed

lemma val_bytes:
  assumes "a < 256" and "b < 256" and "c < (256 :: nat)"
  shows "a * 65536 + b * 256 + c < 16777216"
    and "(a * 65536 + b * 256 + c) div 65536 = a"
    and "(a * 65536 + b * 256 + c) div 256 mod 256 = b"
    and "(a * 65536 + b * 256 + c) mod 256 = c"
proof -
  show "a * 65536 + b * 256 + c < 16777216" using assms by linarith
  show "(a * 65536 + b * 256 + c) div 65536 = a"
    using assms by (intro div_nat_eqI) simp_all
  have d: "(a * 65536 + b * 256 + c) div 256 = 256 * a + b"
    using assms by (intro div_nat_eqI) simp_all
  then show "(a * 65536 + b * 256 + c) div 256 mod 256 = b"
    using assms by simp
  show "(a * 65536 + b * 256 + c) mod 256 = c"
    using d by (simp add: minus_mult_div_eq_mod [symmetric])
qed

lemma base64_roundtrip [simp]: "base64_Decode (base64_Encode bs) = bs"
proof (induction bs rule: base64_Encode.induct)
  case (2 a)
  define v where "v = unat a * 65536"
  have v: "v < 16777216" "v div 65536 = unat a" "v div 64 mod 64 = 0" "v mod 64 = 0"
    using val_bytes [of "unat a" 0 0] by (simp_all add: v_def)
  have enc: "base64_Encode [a] = [b64_char (v div 262144), b64_char (v div 4096), CHR ''='', CHR ''='']"
    by (simp only: base64_Encode.simps Let_def v_def)
  have rec: "v div 262144 mod 64 * 262144 + v div 4096 mod 64 * 4096 = v"
    using val_recombine [OF v(1)] unfolding v(3,4) by (simp only: mult_zero_left add_0_right)
  show ?case
    unfolding enc by (simp add: b64_group_def Let_def rec v(2))
next
  case (3 a b)
  define v where "v = unat a * 65536 + unat b * 256"
  have v: "v < 16777216" "v div 65536 = unat a" "v div 256 mod 256 = unat b" "v mod 64 = 0"
    using val_bytes [of "unat a" "unat b" 0] by (simp_all add: v_def)
  have enc: "base64_Encode [a, b] =
      [b64_char (v div 262144), b64_char (v div 4096), b64_char (v div 64), CHR ''='']"
    by (simp only: base64_Encode.simps Let_def v_def)
  have rec: "v div 262144 mod 64 * 262144 + v div 4096 mod 64 * 4096 + v div 64 mod 64 * 64 = v"
    using val_recombine [OF v(1)] unfolding v(4) by (simp only: add_0_right)
  show ?case
    unfolding enc by (simp add: b64_group_def Let_def rec v(2,3))
next
  case (4 a b c rest)
  let ?v = "unat a * 65536 + unat b * 256 + unat c"
  note bnd = val_bytes [of "unat a" "unat b" "unat c"]
  have v: "?v div 262144 mod 64 * 262144 + ?v div 4096 mod 64 * 4096 + ?v div 64 mod 64 * 64
      + ?v mod 64 = ?v"
    by (rule val_recombine) (simp add: bnd)
  show ?case
    using 4 by (simp add: b64_group_def Let_def v bnd)
qed simp

lemma base64_inj: "base64_Encode xs = base64_Encode ys \<longleftrightarrow> xs = ys"
  by (metis base64_roundtrip)

lemma base64_length: "length (base64_Encode bs) = 4 * ((length bs + 2) div 3)"
proof (induction bs rule: base64_Encode.induct)
  case (4 a b c rest)
  have "(5 + length rest) div 3 = Suc (Suc (Suc (length rest)) div 3)" by presburger
  with 4 show ?case by (simp add: Let_def)
qed (simp_all add: Let_def)

section \<open>Hexadecimal\<close>

text \<open>The verb \<open>%x\<close> of \<open>fmt.Sprintf\<close> on a byte slice: two lower-case digits a byte.\<close>

definition hex_digit :: "nat \<Rightarrow> char" where
  "hex_digit d = ''0123456789abcdef'' ! (d mod 16)"

definition hex_byte :: "byte \<Rightarrow> string" where
  "hex_byte b = [hex_digit (unat b div 16), hex_digit (unat b mod 16)]"

definition hex_bytes :: "byte list \<Rightarrow> string" where
  "hex_bytes bs = concat (map hex_byte bs)"

lemma hex_bytes_length [simp]: "length (hex_bytes bs) = 2 * length bs"
  by (induction bs) (simp_all add: hex_bytes_def hex_byte_def)

lemma hex_digit_set: "hex_digit d \<in> set ''0123456789abcdef''"
  unfolding hex_digit_def by (rule nth_mem) simp

lemma hex_bytes_set: "set (hex_bytes bs) \<subseteq> set ''0123456789abcdef''"
proof -
  have "set (hex_byte b) \<subseteq> set ''0123456789abcdef''" for b
    unfolding hex_byte_def using hex_digit_set [of "unat b div 16"] hex_digit_set [of "unat b mod 16"]
    by simp
  then show ?thesis
    by (fastforce simp: hex_bytes_def)
qed

section \<open>Durations as text\<close>

text \<open>
  \<open>time.Duration.String\<close>: the fraction of a number of units of \<open>10 ^ prec\<close> without its trailing
  zeros, and the duration in hours, minutes and seconds, or in one smaller unit below a second.
\<close>

definition duration_frac :: "int \<Rightarrow> nat \<Rightarrow> string" where
  "duration_frac v prec =
     (let ds = map (\<lambda>i. digit_char (nat (v div 10 ^ (prec - 1 - i) mod 10))) [0..<prec];
          kept = rev (dropWhile (\<lambda>c. c = CHR ''0'') (rev ds))
      in if kept = [] then [] else CHR ''.'' # kept)"

definition duration_String :: "duration \<Rightarrow> string" where
  "duration_String d =
     (let u = \<bar>d\<bar>; secs = u div 1000000000; mins = secs div 60; hours = mins div 60;
          s = Itoa (secs mod 60) @ duration_frac u 9 @ ''s''
      in (if d < 0 then ''-'' else []) @
         (if u = 0 then ''0s''
          else if u < 1000 then Itoa u @ ''ns''
          else if u < 1000000
            then Itoa (u div 1000) @ duration_frac u 3 @ [char_of (194 :: nat), char_of (181 :: nat)] @ ''s''
          else if u < 1000000000 then Itoa (u div 1000000) @ duration_frac u 6 @ ''ms''
          else if mins = 0 then s
          else if hours = 0 then Itoa mins @ ''m'' @ s
          else Itoa hours @ ''h'' @ Itoa (mins mod 60) @ ''m'' @ s))"

text \<open>\<open>d.Truncate(m)\<close>: towards zero to a multiple of \<open>m\<close>.\<close>

definition duration_Truncate :: "duration \<Rightarrow> duration \<Rightarrow> duration" where
  "duration_Truncate d m = (if m \<le> 0 then d else d - sgn d * (\<bar>d\<bar> mod m))"

end
