(* ===== verification/Bandwidth.thy ===== *)
theory Bandwidth
  imports Go_Text
begin

unbundle bit_operations_syntax

text \<open>
  Bandwidth telemetry (\<open>franzadapter/bandwidth.go\<close>): the collector's per-partition counters, fed by
  the client's hooks, and the packets its timer emits. The counters are 64-bit words, as the
  source's \<open>int64\<close> fields are, so their additions wrap. Metadata and metrics come from the client
  and are records with the fields the source reads; the order of a \<open>range\<close> loop, the time and the
  random bytes are parameters. The locale \<open>bandwidth_counter\<close> states what each counter promises
  (a batch adds to it, a packet copies it, an emission resets it) and derives once, for all four
  counters, that no byte is lost or counted twice between packets.
\<close>

section \<open>Data\<close>

record BrokerMetadata =
  NodeID :: int
  bm_Host :: string
  bm_Port :: int
  bm_Rack :: "string option"

record FetchBatchMetrics =
  NumRecords :: "64 word"
  UncompressedBytes :: "64 word"
  CompressedBytes :: "64 word"
  CompressionType :: "8 word"

record BrokerInfo =
  bi_ID :: string
  bi_Host :: string
  bi_Port :: string
  bi_Rack :: string

record partitionAccumulator =
  receivedBytes :: "64 word"
  transmittedBytes :: "64 word"
  receivedMessageCount :: "64 word"
  compressedBytes :: "64 word"
  uncompressedBytes :: "64 word"
  compression :: string
  leader :: string

record PartitionBandwidth =
  pb_Ts :: instant
  pb_ID :: int
  pb_Leader :: string
  pb_ReceivedBytes :: "64 word"
  pb_TransmittedBytes :: "64 word"
  pb_ReceivedMessageCount :: "64 word"
  pb_CompressedBytes :: "64 word"
  pb_UncompressedBytes :: "64 word"
  pb_Compression :: string

record BandwidthMetrics =
  bw_Ts :: instant
  bw_StatsIntervalDuration :: duration
  bw_BandwidthMetricsID :: string
  bw_TopicName :: string
  bw_ConsumerGroup :: string
  bw_Brokers :: "BrokerInfo list"
  bw_Partitions :: "PartitionBandwidth list"

text \<open>
  The collector. \<open>bc_callback\<close> is the registered callback (a handle), \<open>bc_quit\<close> whether the quit
  channel is closed, \<open>bc_once\<close> whether the close has run, \<open>bc_wg\<close> the wait group's counter.
\<close>

record bandwidthCollector =
  bc_partitions :: "(int, partitionAccumulator) gomap"
  bc_brokers :: "(int, BrokerInfo) gomap"
  bc_callback :: "nat option"
  bc_interval :: duration
  bc_groupID :: string
  bc_topicName :: string
  bc_quit :: bool
  bc_once :: bool
  bc_wg :: nat

section \<open>Operations\<close>

definition compressionNames :: "string list" where
  "compressionNames = [''none'', ''gzip'', ''snappy'', ''lz4'', ''zstd'']"

definition compressionName :: "8 word \<Rightarrow> string" where
  "compressionName code =
     (if unat code < length compressionNames then compressionNames ! unat code
      else ''unknown('' @ Itoa (int (unat code)) @ '')'')"

text \<open>\<open>newBandwidthCollector\<close>; the default interval is the nexus library's constant.\<close>

definition newBandwidthCollector ::
  "duration \<Rightarrow> duration \<Rightarrow> string \<Rightarrow> string \<Rightarrow> bandwidthCollector" where
  "newBandwidthCollector DefaultBandwidthInterval d grp topic =
     \<lparr>bc_partitions = [], bc_brokers = [], bc_callback = None,
      bc_interval = (if d = 0 then DefaultBandwidthInterval else d),
      bc_groupID = grp, bc_topicName = topic, bc_quit = False, bc_once = False, bc_wg = 0\<rparr>"

text \<open>\<open>start\<close>: one emission goroutine more.\<close>

definition start :: "bandwidthCollector \<Rightarrow> bandwidthCollector" where
  "start bc = bc\<lparr>bc_wg := bc_wg bc + 1\<rparr>"

text \<open>
  \<open>stop\<close>: closes the quit channel once and waits until every emission goroutine has called
  \<open>Done\<close>, so it returns with the counter at zero. That the wait returns is an assumption on the
  registered callback, which must return for the emission goroutine to see the closed channel.
\<close>

definition stop :: "bandwidthCollector \<Rightarrow> bandwidthCollector" where
  "stop bc = (if bc_once bc then bc else bc\<lparr>bc_once := True, bc_quit := True\<rparr>)\<lparr>bc_wg := 0\<rparr>"

definition updateBroker :: "BrokerMetadata \<Rightarrow> bandwidthCollector \<Rightarrow> bandwidthCollector" where
  "updateBroker meta bc =
     (if map_of (bc_brokers bc) (NodeID meta) = None \<or> NodeID meta \<ge> 0
      then bc\<lparr>bc_brokers := gm_put (NodeID meta)
             \<lparr>bi_ID = Itoa (NodeID meta), bi_Host = bm_Host meta, bi_Port = Itoa (bm_Port meta),
              bi_Rack = (case bm_Rack meta of None \<Rightarrow> [] | Some r \<Rightarrow> r)\<rparr> (bc_brokers bc)\<rparr>
      else bc)"

definition zero_accumulator :: partitionAccumulator where
  "zero_accumulator =
     \<lparr>receivedBytes = 0, transmittedBytes = 0, receivedMessageCount = 0, compressedBytes = 0,
      uncompressedBytes = 0, compression = [], leader = []\<rparr>"

text \<open>\<open>getOrCreatePartition\<close>: the entry, or a fresh one (stored by the caller's update below).\<close>

definition getOrCreatePartition :: "bandwidthCollector \<Rightarrow> int \<Rightarrow> partitionAccumulator" where
  "getOrCreatePartition bc p =
     (case map_of (bc_partitions bc) p of None \<Rightarrow> zero_accumulator | Some acc \<Rightarrow> acc)"

definition accumulate ::
  "BrokerMetadata \<Rightarrow> FetchBatchMetrics \<Rightarrow> partitionAccumulator \<Rightarrow> partitionAccumulator" where
  "accumulate meta m acc =
     acc\<lparr>leader := Itoa (NodeID meta),
         receivedBytes := receivedBytes acc + UncompressedBytes m,
         receivedMessageCount := receivedMessageCount acc + NumRecords m,
         compressedBytes := compressedBytes acc + CompressedBytes m,
         uncompressedBytes := uncompressedBytes acc + UncompressedBytes m,
         compression := (if CompressionType m > 0 then compressionName (CompressionType m)
                         else compression acc)\<rparr>"

definition recordFetchBatch ::
  "BrokerMetadata \<Rightarrow> int \<Rightarrow> FetchBatchMetrics \<Rightarrow> bandwidthCollector \<Rightarrow> bandwidthCollector" where
  "recordFetchBatch meta p m bc =
     (let bc1 = updateBroker meta bc
      in bc1\<lparr>bc_partitions :=
               gm_put p (accumulate meta m (getOrCreatePartition bc1 p)) (bc_partitions bc1)\<rparr>)"

definition recordBrokerRead :: "BrokerMetadata \<Rightarrow> int \<Rightarrow> bandwidthCollector \<Rightarrow> bandwidthCollector" where
  "recordBrokerRead meta bytesRead bc = updateBroker meta bc"

definition recordBrokerWrite :: "BrokerMetadata \<Rightarrow> int \<Rightarrow> bandwidthCollector \<Rightarrow> bandwidthCollector" where
  "recordBrokerWrite meta bytesWritten bc = updateBroker meta bc"

text \<open>\<open>generateUUID\<close> on the sixteen bytes that \<open>crypto/rand\<close> delivered.\<close>

definition generateUUID :: "byte list \<Rightarrow> string" where
  "generateUUID rnd =
     (let u1 = rnd[6 := (rnd ! 6 AND 0x0f) OR 0x40];
          u = u1[8 := (u1 ! 8 AND 0x3f) OR 0x80]
      in hex_bytes (take 4 u) @ ''-'' @ hex_bytes (take 2 (drop 4 u)) @ ''-'' @
         hex_bytes (take 2 (drop 6 u)) @ ''-'' @ hex_bytes (take 2 (drop 8 u)) @ ''-'' @
         hex_bytes (drop 10 u))"

definition snapshot :: "instant \<Rightarrow> int \<times> partitionAccumulator \<Rightarrow> PartitionBandwidth" where
  "snapshot now e =
     \<lparr>pb_Ts = now, pb_ID = fst e, pb_Leader = leader (snd e),
      pb_ReceivedBytes = receivedBytes (snd e),
      pb_TransmittedBytes = transmittedBytes (snd e),
      pb_ReceivedMessageCount = receivedMessageCount (snd e),
      pb_CompressedBytes = compressedBytes (snd e),
      pb_UncompressedBytes = uncompressedBytes (snd e),
      pb_Compression = compression (snd e)\<rparr>"

definition reset :: "partitionAccumulator \<Rightarrow> partitionAccumulator" where
  "reset acc =
     acc\<lparr>receivedBytes := 0, transmittedBytes := 0, receivedMessageCount := 0,
         compressedBytes := 0, uncompressedBytes := 0\<rparr>"

text \<open>
  What one emission takes from its environment: the time, the random bytes and the orders in
  which the two \<open>range\<close> loops visit the maps.
\<close>

record emit_env =
  ee_now :: instant
  ee_random :: "byte list"
  ee_brokers :: "(int, BrokerInfo) gomap \<Rightarrow> (int, BrokerInfo) gomap"
  ee_partitions :: "(int, partitionAccumulator) gomap \<Rightarrow> (int, partitionAccumulator) gomap"

definition emit :: "emit_env \<Rightarrow> bandwidthCollector \<Rightarrow> bandwidthCollector \<times> BandwidthMetrics option" where
  "emit env bc =
     (case bc_callback bc of
        None \<Rightarrow> (bc, None)
      | Some cb \<Rightarrow>
          (bc\<lparr>bc_partitions := map (\<lambda>(p, acc). (p, reset acc)) (bc_partitions bc)\<rparr>,
           Some \<lparr>bw_Ts = ee_now env, bw_StatsIntervalDuration = bc_interval bc,
                 bw_BandwidthMetricsID = generateUUID (ee_random env),
                 bw_TopicName = bc_topicName bc, bw_ConsumerGroup = bc_groupID bc,
                 bw_Brokers = map snd (ee_brokers env (bc_brokers bc)),
                 bw_Partitions =
                   map (snapshot (ee_now env)) (ee_partitions env (bc_partitions bc))\<rparr>))"

text \<open>
  What happens to a running collector: a hook delivers a batch, a hook reports a read or a write,
  the ticker fires. \<open>bw_run\<close> is the collector after a sequence of them, with the packets in the
  order the callback saw them.
\<close>

datatype bw_event =
    FetchBatch BrokerMetadata int FetchBatchMetrics
  | BrokerRead BrokerMetadata int
  | BrokerWrite BrokerMetadata int
  | Tick emit_env

fun bw_step :: "bw_event \<Rightarrow> bandwidthCollector \<Rightarrow> bandwidthCollector \<times> BandwidthMetrics list" where
  "bw_step (FetchBatch meta p m) bc = (recordFetchBatch meta p m bc, [])"
| "bw_step (BrokerRead meta n) bc = (recordBrokerRead meta n bc, [])"
| "bw_step (BrokerWrite meta n) bc = (recordBrokerWrite meta n bc, [])"
| "bw_step (Tick env) bc = (case emit env bc of (bc', None) \<Rightarrow> (bc', []) | (bc', Some pk) \<Rightarrow> (bc', [pk]))"

fun bw_run :: "bw_event list \<Rightarrow> bandwidthCollector \<Rightarrow> bandwidthCollector \<times> BandwidthMetrics list" where
  "bw_run [] bc = (bc, [])"
| "bw_run (e # es) bc =
     (case bw_step e bc of (bc1, ps) \<Rightarrow> (case bw_run es bc1 of (bc2, qs) \<Rightarrow> (bc2, ps @ qs)))"

text \<open>\<open>emitLoop\<close>: what each \<open>select\<close> picked, a tick or the closed quit channel, which ends it.\<close>

fun emitLoop :: "emit_env option list \<Rightarrow> bandwidthCollector \<Rightarrow> bandwidthCollector \<times> BandwidthMetrics list" where
  "emitLoop [] bc = (bc, [])"
| "emitLoop (None # sel) bc = (bc\<lparr>bc_wg := bc_wg bc - 1\<rparr>, [])"
| "emitLoop (Some env # sel) bc =
     (case bw_step (Tick env) bc of
        (bc1, ps) \<Rightarrow> (case emitLoop sel bc1 of (bc2, qs) \<Rightarrow> (bc2, ps @ qs)))"

section \<open>Well-formed collectors\<close>

definition bw_wf :: "bandwidthCollector \<Rightarrow> bool" where
  "bw_wf bc = (distinct (gm_keys (bc_partitions bc)) \<and> distinct (gm_keys (bc_brokers bc)))"

text \<open>An event's \<open>range\<close> loops visit every entry once.\<close>

fun event_ok :: "bw_event \<Rightarrow> bool" where
  "event_ok (Tick env) = (range_order (ee_partitions env) \<and> range_order (ee_brokers env))"
| "event_ok _ = True"

lemma updateBroker_partitions [simp]: "bc_partitions (updateBroker meta bc) = bc_partitions bc"
  by (simp add: updateBroker_def)

lemma updateBroker_callback [simp]: "bc_callback (updateBroker meta bc) = bc_callback bc"
  by (simp add: updateBroker_def)

lemma updateBroker_wf: "bw_wf bc \<Longrightarrow> bw_wf (updateBroker meta bc)"
  by (simp add: bw_wf_def updateBroker_def distinct_update)

lemma keys_reset [simp]: "map (fst \<circ> (\<lambda>(p, acc). (p, reset acc))) m = gm_keys m"
  by (induction m) auto

lemma map_of_reset [simp]:
  "map_of (map (\<lambda>(p, acc). (p, reset acc)) m) k = map_option reset (map_of m k)"
  by (induction m) auto

lemma bw_step_wf: "bw_wf bc \<Longrightarrow> bw_wf (fst (bw_step e bc))"
proof (induction e bc rule: bw_step.induct)
  case (1 meta p m bc)
  then show ?case
    using updateBroker_wf [OF 1, of meta]
    by (simp add: recordFetchBatch_def Let_def bw_wf_def distinct_update)
next
  case (4 env bc)
  then show ?case
    by (auto simp: emit_def bw_wf_def split: option.splits)
qed (simp_all add: recordBrokerRead_def recordBrokerWrite_def updateBroker_wf)

lemma bw_run_wf: "bw_wf bc \<Longrightarrow> bw_wf (fst (bw_run es bc))"
proof (induction es arbitrary: bc)
  case (Cons e es)
  have "bw_wf (fst (bw_step e bc))" by (rule bw_step_wf [OF Cons.prems])
  from Cons.IH [OF this] show ?case by (cases "bw_step e bc") (auto split: prod.splits)
qed simp

lemma newBandwidthCollector_wf [simp]: "bw_wf (newBandwidthCollector dflt d g t)"
  by (simp add: newBandwidthCollector_def bw_wf_def)

section \<open>No byte lost, none counted twice\<close>

text \<open>A counter's reading now, what the packets carried for it, and what the hooks reported.\<close>

definition reading :: "(partitionAccumulator \<Rightarrow> 'a) \<Rightarrow> bandwidthCollector \<Rightarrow> int \<Rightarrow> 'a" where
  "reading cur bc p = cur (getOrCreatePartition bc p)"

definition packet_total :: "(PartitionBandwidth \<Rightarrow> 'a::comm_monoid_add) \<Rightarrow> BandwidthMetrics \<Rightarrow> int \<Rightarrow> 'a" where
  "packet_total out pk p = sum_list (map out (filter (\<lambda>b. pb_ID b = p) (bw_Partitions pk)))"

definition emitted :: "(PartitionBandwidth \<Rightarrow> 'a::comm_monoid_add) \<Rightarrow> BandwidthMetrics list \<Rightarrow> int \<Rightarrow> 'a" where
  "emitted out pks p = sum_list (map (\<lambda>pk. packet_total out pk p) pks)"

fun batch_of :: "(FetchBatchMetrics \<Rightarrow> 'a::comm_monoid_add) \<Rightarrow> int \<Rightarrow> bw_event \<Rightarrow> 'a" where
  "batch_of inc p (FetchBatch meta q m) = (if q = p then inc m else 0)"
| "batch_of inc p _ = 0"

definition recorded :: "(FetchBatchMetrics \<Rightarrow> 'a::comm_monoid_add) \<Rightarrow> bw_event list \<Rightarrow> int \<Rightarrow> 'a" where
  "recorded inc es p = sum_list (map (batch_of inc p) es)"

lemma getOrCreate_put [simp]:
  "getOrCreatePartition (bc'\<lparr>bc_partitions := gm_put p acc (bc_partitions bc)\<rparr>) q =
     (if q = p then acc else getOrCreatePartition bc q)"
  by (simp add: getOrCreatePartition_def gm_put_get)

lemma getOrCreate_updateBroker [simp]:
  "getOrCreatePartition (updateBroker meta bc) = getOrCreatePartition bc"
  by (rule ext) (simp add: getOrCreatePartition_def)

locale bandwidth_counter =
  fixes cur :: "partitionAccumulator \<Rightarrow> 64 word"
    and out :: "PartitionBandwidth \<Rightarrow> 64 word"
    and inc :: "FetchBatchMetrics \<Rightarrow> 64 word"
  assumes cur_zero: "cur zero_accumulator = 0"
    and cur_accumulate: "cur (accumulate meta m acc) = cur acc + inc m"
    and cur_reset: "cur (reset acc) = 0"
    and out_snapshot: "out (snapshot now e) = cur (snd e)"
begin

lemma packet_reads_counter:
  assumes "bw_wf bc" and "range_order (ee_partitions env)" and "emit env bc = (bc', Some pk)"
  shows "packet_total (\<lambda>x. f (out x)) pk p = (case map_of (bc_partitions bc) p of None \<Rightarrow> 0 | Some a \<Rightarrow> f (cur a))"
proof -
  have eq: "filter (\<lambda>b. pb_ID b = p) (bw_Partitions pk) =
      map (snapshot (ee_now env)) (filter (\<lambda>e. fst e = p) (ee_partitions env (bc_partitions bc)))"
    using assms(3) by (auto simp: emit_def filter_map o_def snapshot_def split: option.splits)
  show ?thesis
    using assms(1) unfolding packet_total_def eq bw_wf_def
    by (simp add: range_filter_key [OF assms(2)] out_snapshot split: option.splits)
qed

lemma emit_resets: "emit env bc = (bc', Some pk) \<Longrightarrow> reading cur bc' p = 0"
  by (auto simp: emit_def reading_def getOrCreatePartition_def cur_zero cur_reset split: option.splits)

lemma step_conserves:
  assumes "bw_wf bc" and "event_ok e" and "bw_step e bc = (bc', pks)"
  shows "reading cur bc p + batch_of inc p e = emitted out pks p + reading cur bc' p"
proof (cases e)
  case (FetchBatch meta q m)
  with assms show ?thesis
    by (auto simp: recordFetchBatch_def Let_def reading_def cur_accumulate emitted_def)
next
  case (Tick env)
  show ?thesis
  proof (cases "emit env bc")
    case (Pair bc'' o')
    show ?thesis
    proof (cases o')
      case None
      with Pair Tick assms show ?thesis
        by (auto simp: emit_def emitted_def split: option.splits)
    next
      case (Some pk)
      with Pair Tick assms have e: "emit env bc = (bc', Some pk)" "pks = [pk]" by auto
      have "packet_total (\<lambda>x. id (out x)) pk p = reading cur bc p"
        using packet_reads_counter [OF assms(1) _ e(1), where f = id and p = p] Tick assms(2)
        by (simp add: reading_def getOrCreatePartition_def cur_zero split: option.splits)
      with e emit_resets [OF e(1)] Tick show ?thesis by (simp add: emitted_def)
    qed
  qed
qed (use assms in \<open>auto simp: recordBrokerRead_def recordBrokerWrite_def reading_def emitted_def\<close>)

lemma run_conserves:
  assumes "bw_wf bc" and "\<forall>e \<in> set es. event_ok e" and "bw_run es bc = (bc', pks)"
  shows "reading cur bc p + recorded inc es p = emitted out pks p + reading cur bc' p"
  using assms
proof (induction es arbitrary: bc pks)
  case Nil
  then show ?case by (simp add: recorded_def emitted_def)
next
  case (Cons e es)
  obtain bc1 ps where s: "bw_step e bc = (bc1, ps)" by fastforce
  obtain qs where r: "bw_run es bc1 = (bc', qs)" and q: "pks = ps @ qs"
    using Cons.prems(3) s by (auto split: prod.splits)
  have "bw_wf bc1" using bw_step_wf [OF Cons.prems(1), of e] s by simp
  from Cons.IH [OF this _ r] Cons.prems(2)
  have "reading cur bc1 p + recorded inc es p = emitted out qs p + reading cur bc' p" by simp
  moreover have "reading cur bc p + batch_of inc p e = emitted out ps p + reading cur bc1 p"
    using step_conserves [OF Cons.prems(1) _ s] Cons.prems(2) by simp
  ultimately show ?case
    unfolding q using add_exchange by (fastforce simp: recorded_def emitted_def)
qed

end

interpretation received_bytes: bandwidth_counter receivedBytes pb_ReceivedBytes UncompressedBytes
  by unfold_locales (simp_all add: zero_accumulator_def accumulate_def reset_def snapshot_def)

interpretation received_count: bandwidth_counter receivedMessageCount pb_ReceivedMessageCount NumRecords
  by unfold_locales (simp_all add: zero_accumulator_def accumulate_def reset_def snapshot_def)

interpretation compressed_bytes: bandwidth_counter compressedBytes pb_CompressedBytes CompressedBytes
  by unfold_locales (simp_all add: zero_accumulator_def accumulate_def reset_def snapshot_def)

interpretation uncompressed_bytes: bandwidth_counter uncompressedBytes pb_UncompressedBytes UncompressedBytes
  by unfold_locales (simp_all add: zero_accumulator_def accumulate_def reset_def snapshot_def)

text \<open>
  C21. From any collector and through any interleaving of hook calls and ticks, for every
  partition: what the hooks reported is what the emitted packets carry plus what the counters
  still hold (modulo the 64-bit wrap-around), for the received bytes, the message count, the
  compressed and the uncompressed bytes alike. An emission neither loses nor repeats a batch.
\<close>

theorem bandwidth_conserved:
  assumes "bw_wf bc" and "\<forall>e \<in> set es. event_ok e" and "bw_run es bc = (bc', pks)"
  shows "reading receivedBytes bc p + recorded UncompressedBytes es p =
           emitted pb_ReceivedBytes pks p + reading receivedBytes bc' p \<and>
         reading receivedMessageCount bc p + recorded NumRecords es p =
           emitted pb_ReceivedMessageCount pks p + reading receivedMessageCount bc' p \<and>
         reading compressedBytes bc p + recorded CompressedBytes es p =
           emitted pb_CompressedBytes pks p + reading compressedBytes bc' p \<and>
         reading uncompressedBytes bc p + recorded UncompressedBytes es p =
           emitted pb_UncompressedBytes pks p + reading uncompressedBytes bc' p"
  using received_bytes.run_conserves [OF assms] received_count.run_conserves [OF assms]
    compressed_bytes.run_conserves [OF assms] uncompressed_bytes.run_conserves [OF assms]
  by blast

definition sample_meta :: BrokerMetadata where
  "sample_meta = \<lparr>NodeID = 1, bm_Host = ''b'', bm_Port = 9092, bm_Rack = None\<rparr>"

definition sample_batch :: "64 word \<Rightarrow> FetchBatchMetrics" where
  "sample_batch n = \<lparr>NumRecords = 1, UncompressedBytes = n, CompressedBytes = 10, CompressionType = 1\<rparr>"

definition sample_tick :: emit_env where
  "sample_tick = \<lparr>ee_now = 0, ee_random = replicate 16 0, ee_brokers = (\<lambda>m. m), ee_partitions = rev\<rparr>"

definition sample_events :: "bw_event list" where
  "sample_events =
     [FetchBatch sample_meta 0 (sample_batch 100), FetchBatch sample_meta 1 (sample_batch 7),
      Tick sample_tick, FetchBatch sample_meta 0 (sample_batch 5)]"

definition sample_collector :: bandwidthCollector where
  "sample_collector = (newBandwidthCollector Minute 0 ''g'' ''t'')\<lparr>bc_callback := Some 1\<rparr>"

theorem bandwidth_conserved_witness:
  "reading receivedBytes (fst (bw_run sample_events sample_collector)) 0 = 5 \<and>
   emitted pb_ReceivedBytes (snd (bw_run sample_events sample_collector)) 0 +
     reading receivedBytes (fst (bw_run sample_events sample_collector)) 0 = 105"
proof -
  have wf: "bw_wf sample_collector"
    by (simp add: sample_collector_def newBandwidthCollector_def bw_wf_def)
  have ok: "\<forall>e \<in> set sample_events. event_ok e"
    by (simp add: sample_events_def sample_tick_def)
  have run: "bw_run sample_events sample_collector =
      (fst (bw_run sample_events sample_collector), snd (bw_run sample_events sample_collector))"
    by simp
  have "reading receivedBytes (fst (bw_run sample_events sample_collector)) 0 = 5"
    by (simp add: sample_events_def sample_collector_def newBandwidthCollector_def sample_tick_def
        recordFetchBatch_def updateBroker_def sample_meta_def sample_batch_def accumulate_def
        getOrCreatePartition_def zero_accumulator_def reading_def emit_def reset_def Let_def)
  moreover have "reading receivedBytes sample_collector 0 + recorded UncompressedBytes sample_events 0 = 105"
    by (simp add: sample_events_def sample_collector_def newBandwidthCollector_def recorded_def
        sample_batch_def reading_def getOrCreatePartition_def zero_accumulator_def)
  ultimately show ?thesis
    using bandwidth_conserved [OF wf ok run, of 0] by simp
qed

section \<open>Exact totals below the wrap-around\<close>

context bandwidth_counter
begin

lemma step_exact:
  assumes "bw_wf bc" and "event_ok e" and "bw_step e bc = (bc', pks)"
    and "unat (reading cur bc p) + batch_of (\<lambda>x. unat (inc x)) p e < 2 ^ 64"
  shows "unat (reading cur bc p) + batch_of (\<lambda>x. unat (inc x)) p e =
           emitted (\<lambda>x. unat (out x)) pks p + unat (reading cur bc' p)"
proof (cases e)
  case (FetchBatch meta q m)
  with assms show ?thesis
    by (auto simp: recordFetchBatch_def Let_def reading_def cur_accumulate emitted_def
        unat_word_ariths split: if_splits)
next
  case (Tick env)
  show ?thesis
  proof (cases "snd (emit env bc)")
    case None
    with Tick assms show ?thesis
      by (auto simp: emit_def emitted_def split: option.splits)
  next
    case (Some pk)
    with Tick assms(3) have e: "emit env bc = (bc', Some pk)" "pks = [pk]"
      by (auto split: prod.splits option.splits)
    have "packet_total (\<lambda>x. unat (out x)) pk p = unat (reading cur bc p)"
      using packet_reads_counter [OF assms(1) _ e(1), where f = unat and p = p] Tick assms(2)
      by (simp add: reading_def getOrCreatePartition_def cur_zero split: option.splits)
    with e emit_resets [OF e(1)] Tick show ?thesis by (simp add: emitted_def)
  qed
qed (use assms in \<open>auto simp: recordBrokerRead_def recordBrokerWrite_def reading_def emitted_def\<close>)

lemma run_exact:
  assumes "bw_wf bc" and "\<forall>e \<in> set es. event_ok e" and "bw_run es bc = (bc', pks)"
    and "unat (reading cur bc p) + recorded (\<lambda>x. unat (inc x)) es p < 2 ^ 64"
  shows "unat (reading cur bc p) + recorded (\<lambda>x. unat (inc x)) es p =
           emitted (\<lambda>x. unat (out x)) pks p + unat (reading cur bc' p)"
  using assms
proof (induction es arbitrary: bc pks)
  case Nil
  then show ?case by (simp add: recorded_def emitted_def)
next
  case (Cons e es)
  obtain bc1 ps where s: "bw_step e bc = (bc1, ps)" by fastforce
  obtain qs where r: "bw_run es bc1 = (bc', qs)" and q: "pks = ps @ qs"
    using Cons.prems(3) s by (auto split: prod.splits)
  have rec: "recorded (\<lambda>x. unat (inc x)) (e # es) p = batch_of (\<lambda>x. unat (inc x)) p e + recorded (\<lambda>x. unat (inc x)) es p"
    by (simp add: recorded_def)
  have 1: "unat (reading cur bc p) + batch_of (\<lambda>x. unat (inc x)) p e =
      emitted (\<lambda>x. unat (out x)) ps p + unat (reading cur bc1 p)"
    using step_exact [OF Cons.prems(1) _ s] Cons.prems(2,4) rec by simp
  have "bw_wf bc1" using bw_step_wf [OF Cons.prems(1), of e] s by simp
  from Cons.IH [OF this _ r] Cons.prems(2,4) 1 rec
  have "unat (reading cur bc1 p) + recorded (\<lambda>x. unat (inc x)) es p =
      emitted (\<lambda>x. unat (out x)) qs p + unat (reading cur bc' p)" by simp
  from add_exchange [OF 1 this] show ?case
    unfolding q rec by (simp add: emitted_def)
qed

end

text \<open>
  The counters are \<open>int64\<close> values: read as signed integers they agree with the unsigned reading
  below 2^63.
\<close>

lemma int_unat: "int (unat (w :: 64 word)) = uint w"
  by simp

lemma sint_small: "unat (w :: 64 word) < 2 ^ 63 \<Longrightarrow> sint w = int (unat w)"
proof -
  assume "unat w < 2 ^ 63"
  then have "int (unat w) < int (2 ^ 63)" by (simp only: of_nat_less_iff)
  then have "uint w < 2 ^ 63" by (simp only: int_unat of_nat_power of_nat_numeral)
  moreover have "- (2 ^ 63) \<le> uint w" by (rule order_trans [OF _ uint_ge_0]) simp
  ultimately have "signed_take_bit 63 (uint w) = uint w"
    by (intro signed_take_bit_int_eq_self)
  then show ?thesis by (simp add: sint_uint)
qed

lemma sint_nonneg: "0 \<le> sint (w :: 64 word) \<Longrightarrow> sint w = int (unat w)"
proof -
  assume n: "0 \<le> sint w"
  have l: "sint w < 2 ^ 63" using signed_take_bit_int_less_exp [of 63 "uint w"] by (simp add: sint_uint)
  have "uint w = uint (word_of_int (sint w) :: 64 word)" by simp
  also have "\<dots> = sint w mod 2 ^ 64" by (simp only: uint_word_of_int) simp
  also have "\<dots> = sint w" using n l by (intro mod_pos_pos_trivial) simp_all
  finally show ?thesis by (simp only: int_unat)
qed

text \<open>The signed view of what the hooks report and the packets carry.\<close>

fun nonneg_batch :: "(FetchBatchMetrics \<Rightarrow> 64 word) \<Rightarrow> bw_event \<Rightarrow> bool" where
  "nonneg_batch inc (FetchBatch meta q m) = (0 \<le> sint (inc m))"
| "nonneg_batch inc _ = True"

lemma recorded_signed:
  "\<forall>e \<in> set es. nonneg_batch inc e \<Longrightarrow>
   recorded (\<lambda>x. sint (inc x)) es p = int (recorded (\<lambda>x. unat (inc x)) es p)"
proof (induction es)
  case (Cons e es)
  have "batch_of (\<lambda>x. sint (inc x)) p e = int (batch_of (\<lambda>x. unat (inc x)) p e)"
    using Cons.prems by (cases e) (simp_all add: sint_nonneg del: of_nat_unat)
  with Cons show ?case by (simp add: recorded_def)
qed (simp add: recorded_def)

lemma sum_signed:
  "sum_list (map (\<lambda>x. unat (f x :: 64 word)) xs) < 2 ^ 63 \<Longrightarrow>
   sum_list (map (\<lambda>x. sint (f x)) xs) = int (sum_list (map (\<lambda>x. unat (f x)) xs))"
proof (induction xs)
  case (Cons x xs)
  then have "unat (f x) < 2 ^ 63" "sum_list (map (\<lambda>x. unat (f x)) xs) < 2 ^ 63"
    by simp_all
  with Cons.IH sint_small [of "f x"] show ?case
    by (simp only: list.map sum_list.Cons of_nat_add)
qed simp

lemma emitted_signed:
  "emitted (\<lambda>x. unat (out x :: 64 word)) pks p < 2 ^ 63 \<Longrightarrow>
   emitted (\<lambda>x. sint (out x)) pks p = int (emitted (\<lambda>x. unat (out x)) pks p)"
proof (induction pks)
  case (Cons pk pks)
  have e: "emitted f (pk # pks) p = packet_total f pk p + emitted f pks p" for f :: "PartitionBandwidth \<Rightarrow> 'b::comm_monoid_add"
    by (simp add: emitted_def)
  have lt: "packet_total (\<lambda>x. unat (out x)) pk p < 2 ^ 63" "emitted (\<lambda>x. unat (out x)) pks p < 2 ^ 63"
    using Cons.prems unfolding e by linarith+
  have "packet_total (\<lambda>x. sint (out x)) pk p = int (packet_total (\<lambda>x. unat (out x)) pk p)"
    using lt(1) unfolding packet_total_def by (rule sum_signed)
  with Cons.IH [OF lt(2)] show ?case unfolding e by (simp only: of_nat_add)
qed (simp add: emitted_def)

context bandwidth_counter
begin

lemma run_small:
  assumes "bw_wf bc" and "\<forall>e \<in> set es. event_ok e" and "bw_run es bc = (bc', pks)"
    and "\<forall>e \<in> set es. nonneg_batch inc e" and "0 \<le> sint (reading cur bc p)"
    and "sint (reading cur bc p) + recorded (\<lambda>x. sint (inc x)) es p < 2 ^ 63"
  shows "emitted (\<lambda>x. unat (out x)) pks p < 2 ^ 63 \<and> unat (reading cur bc' p) < 2 ^ 63 \<and>
    sint (reading cur bc p) + recorded (\<lambda>x. sint (inc x)) es p =
      int (emitted (\<lambda>x. unat (out x)) pks p + unat (reading cur bc' p))"
proof -
  let ?t = "unat (reading cur bc p) + recorded (\<lambda>x. unat (inc x)) es p"
  have t: "sint (reading cur bc p) + recorded (\<lambda>x. sint (inc x)) es p = int ?t"
    unfolding recorded_signed [OF assms(4)] sint_nonneg [OF assms(5)] by (simp only: of_nat_add)
  have lt: "?t < 2 ^ 63" using assms(6) unfolding t by (simp only: of_nat_less_numeral_power_cancel_iff)
  then have "?t < 2 ^ 64" by simp
  from run_exact [OF assms(1,2,3) this]
  have eq: "?t = emitted (\<lambda>x. unat (out x)) pks p + unat (reading cur bc' p)" .
  moreover have "emitted (\<lambda>x. unat (out x)) pks p < 2 ^ 63" "unat (reading cur bc' p) < 2 ^ 63"
    using lt eq by linarith+
  ultimately show ?thesis unfolding t by simp
qed

lemma run_exact_signed:
  assumes "bw_wf bc" and "\<forall>e \<in> set es. event_ok e" and "bw_run es bc = (bc', pks)"
    and "\<forall>e \<in> set es. nonneg_batch inc e" and "0 \<le> sint (reading cur bc p)"
    and "sint (reading cur bc p) + recorded (\<lambda>x. sint (inc x)) es p < 2 ^ 63"
  shows "emitted (\<lambda>x. sint (out x)) pks p + sint (reading cur bc' p) =
           sint (reading cur bc p) + recorded (\<lambda>x. sint (inc x)) es p"
  using run_small [OF assms] by (simp only: emitted_signed sint_small of_nat_add)

lemma run_signed_nonneg:
  assumes "bw_wf bc" and "\<forall>e \<in> set es. event_ok e" and "bw_run es bc = (bc', pks)"
    and "\<forall>e \<in> set es. nonneg_batch inc e" and "0 \<le> sint (reading cur bc p)"
    and "sint (reading cur bc p) + recorded (\<lambda>x. sint (inc x)) es p < 2 ^ 63"
  shows "0 \<le> emitted (\<lambda>x. sint (out x)) pks p \<and> 0 \<le> sint (reading cur bc' p)"
proof -
  have "emitted (\<lambda>x. unat (out x)) pks p < 2 ^ 63" "unat (reading cur bc' p) < 2 ^ 63"
    using run_small [OF assms] by simp_all
  then show ?thesis by (simp only: emitted_signed sint_small of_nat_0_le_iff)
qed

end

text \<open>
  C22. As long as what the hooks report for a partition stays below 2^63, the range of an \<open>int64\<close>,
  no counter overflows: read as signed integers, the received bytes of the packets and of the
  counter add up exactly to the bytes the hooks reported, and neither part is negative.
\<close>

theorem bandwidth_exact:
  assumes "bw_wf bc" and "\<forall>e \<in> set es. event_ok e" and "bw_run es bc = (bc', pks)"
    and "\<forall>e \<in> set es. nonneg_batch UncompressedBytes e" and "0 \<le> sint (reading receivedBytes bc p)"
    and "sint (reading receivedBytes bc p) + recorded (\<lambda>x. sint (UncompressedBytes x)) es p < 2 ^ 63"
  shows "emitted (\<lambda>x. sint (pb_ReceivedBytes x)) pks p + sint (reading receivedBytes bc' p) =
           sint (reading receivedBytes bc p) + recorded (\<lambda>x. sint (UncompressedBytes x)) es p \<and>
         0 \<le> emitted (\<lambda>x. sint (pb_ReceivedBytes x)) pks p \<and> 0 \<le> sint (reading receivedBytes bc' p)"
  using received_bytes.run_exact_signed [OF assms] received_bytes.run_signed_nonneg [OF assms] by simp

theorem bandwidth_exact_witness:
  "emitted (\<lambda>x. sint (pb_ReceivedBytes x)) (snd (bw_run sample_events sample_collector)) 0 +
     sint (reading receivedBytes (fst (bw_run sample_events sample_collector)) 0) = 105"
proof -
  have wf: "bw_wf sample_collector"
    by (simp add: sample_collector_def newBandwidthCollector_def bw_wf_def)
  have ok: "\<forall>e \<in> set sample_events. event_ok e" "\<forall>e \<in> set sample_events. nonneg_batch UncompressedBytes e"
    by (simp_all add: sample_events_def sample_tick_def sample_batch_def)
  have run: "bw_run sample_events sample_collector =
      (fst (bw_run sample_events sample_collector), snd (bw_run sample_events sample_collector))"
    by simp
  have t: "sint (reading receivedBytes sample_collector 0) = 0"
    "recorded (\<lambda>x. sint (UncompressedBytes x)) sample_events 0 = 105"
    by (simp_all add: sample_events_def sample_collector_def newBandwidthCollector_def recorded_def
        sample_batch_def reading_def getOrCreatePartition_def zero_accumulator_def)
  show ?thesis
    using bandwidth_exact [OF wf ok(1) run ok(2), of 0] t by simp
qed

section \<open>Identifiers, brokers, compression and shutdown\<close>

lemma unat_div16: "unat (w :: byte) div 16 = unat (drop_bit 4 w)"
  by (simp add: drop_bit_eq_div unat_div)

lemma version_nibble: "unat (((x :: byte) AND 0x0f) OR 0x40) div 16 = 4"
  unfolding unat_div16 by (simp add: drop_bit_and drop_bit_or)

lemma and_3_cases: "(x :: byte) AND 3 \<in> {0, 1, 2, 3}"
proof -
  have "unat (x AND 3) \<le> unat (3 :: byte)"
    by (rule word_and_le1 [THEN word_le_nat_alt [THEN iffD1]])
  then have "unat (x AND 3) = unat (0 :: byte) \<or> unat (x AND 3) = unat (1 :: byte) \<or>
      unat (x AND 3) = unat (2 :: byte) \<or> unat (x AND 3) = unat (3 :: byte)"
    by auto
  then have "x AND 3 = 0 \<or> x AND 3 = 1 \<or> x AND 3 = 2 \<or> x AND 3 = 3"
    by (blast intro: unsigned_word_eqI)
  then show ?thesis by simp
qed

lemma variant_nibble: "unat (((x :: byte) AND 0x3f) OR 0x80) div 16 \<in> {8, 9, 10, 11}"
  unfolding unat_div16 using and_3_cases [of "drop_bit 4 x"]
  by (auto simp: drop_bit_and drop_bit_or)

text \<open>
  C38. Every generated identifier has the version 4 UUID form: five groups of 8, 4, 4, 4 and 12
  lower-case hexadecimal digits joined by dashes, the third group starting with the version
  digit 4 and the fourth with one of the variant digits 8, 9, a, b, whatever bytes the random
  source delivered.
\<close>

theorem generateUUID_v4:
  assumes "length rnd = 16"
  shows "\<exists>a b c d e. generateUUID rnd = a @ ''-'' @ b @ ''-'' @ c @ ''-'' @ d @ ''-'' @ e \<and>
           map length [a, b, c, d, e] = [8, 4, 4, 4, 12] \<and>
           set (a @ b @ c @ d @ e) \<subseteq> set ''0123456789abcdef'' \<and>
           hd c = CHR ''4'' \<and> hd d \<in> set ''89ab''"
proof -
  define u1 where "u1 = rnd[6 := (rnd ! 6 AND 0x0f) OR 0x40]"
  define u where "u = u1[8 := (u1 ! 8 AND 0x3f) OR 0x80]"
  have len: "length u = 16" by (simp add: u_def u1_def assms)
  have c: "take 2 (drop 6 u) = [u ! 6, u ! 7]" and d: "take 2 (drop 8 u) = [u ! 8, u ! 9]"
    by (simp_all add: len Cons_nth_drop_Suc [symmetric] numeral_2_eq_2)
  have u6: "u ! 6 = (rnd ! 6 AND 0x0f) OR 0x40" and u8: "u ! 8 = (u1 ! 8 AND 0x3f) OR 0x80"
    by (simp_all add: u_def u1_def assms)
  have "hd (hex_bytes (take 2 (drop 6 u))) = CHR ''4''"
    unfolding c u6 by (simp add: hex_bytes_def hex_byte_def version_nibble hex_digit_def)
  moreover have "hd (hex_bytes (take 2 (drop 8 u))) \<in> set ''89ab''"
    unfolding d u8 using variant_nibble [of "u1 ! 8"]
    by (auto simp: hex_bytes_def hex_byte_def hex_digit_def)
  moreover have "generateUUID rnd = hex_bytes (take 4 u) @ ''-'' @ hex_bytes (take 2 (drop 4 u)) @
      ''-'' @ hex_bytes (take 2 (drop 6 u)) @ ''-'' @ hex_bytes (take 2 (drop 8 u)) @ ''-'' @
      hex_bytes (drop 10 u)"
    by (simp only: generateUUID_def Let_def u_def u1_def)
  ultimately show ?thesis
    using hex_bytes_set len
    by (intro exI [of _ "hex_bytes (take 4 u)"] exI [of _ "hex_bytes (take 2 (drop 4 u))"]
        exI [of _ "hex_bytes (take 2 (drop 6 u))"] exI [of _ "hex_bytes (take 2 (drop 8 u))"]
        exI [of _ "hex_bytes (drop 10 u)"]) (simp only: set_append Un_subset_iff, simp)
qed

theorem generateUUID_v4_witness:
  "\<exists>a b c d e. generateUUID (replicate 16 255) = a @ ''-'' @ b @ ''-'' @ c @ ''-'' @ d @ ''-'' @ e \<and>
     hd c = CHR ''4'' \<and> hd d \<in> set ''89ab''"
proof -
  have "length (replicate 16 (255 :: byte)) = 16" by simp
  from generateUUID_v4 [OF this] show ?thesis by blast
qed

interpretation stop_once: once_guard "\<lambda>bc. bc_once bc \<and> bc_wg bc = 0" "\<lambda>_ :: unit. stop"
  by unfold_locales (auto simp: stop_def)

text \<open>The label a sequence of events leaves on a partition: that of its last compressed batch.\<close>

fun last_label :: "bw_event list \<Rightarrow> int \<Rightarrow> string \<Rightarrow> string" where
  "last_label [] p l = l"
| "last_label (FetchBatch meta q m # es) p l =
     last_label es p (if q = p \<and> CompressionType m > 0 then compressionName (CompressionType m) else l)"
| "last_label (e # es) p l = last_label es p l"

lemma reset_label [simp]: "compression (reset acc) = compression acc"
  by (simp add: reset_def)

lemma emit_keeps_label:
  "reading compression (fst (emit env bc)) p = reading compression bc p"
  by (auto simp: emit_def reading_def getOrCreatePartition_def split: option.splits)

text \<open>
  C40. The compression label of a partition is that of its last compressed batch: an emission does
  not clear it, an uncompressed batch does not replace it, and a partition that has only seen
  uncompressed batches keeps the empty label rather than the name for no compression.
\<close>

theorem compression_label_is_last_compressed:
  "reading compression (fst (bw_run es bc)) p = last_label es p (reading compression bc p)"
proof (induction es arbitrary: bc)
  case (Cons e es)
  have 1: "reading compression (fst (bw_run (e # es) bc)) p =
      last_label es p (reading compression (fst (bw_step e bc)) p)"
    using Cons.IH [of "fst (bw_step e bc)"]
    by (cases "bw_step e bc") (auto split: prod.splits)
  show ?case
  proof (cases e)
    case (FetchBatch meta q m)
    then have "reading compression (fst (bw_step e bc)) p =
        (if q = p \<and> CompressionType m > 0 then compressionName (CompressionType m)
         else reading compression bc p)"
      by (auto simp: recordFetchBatch_def Let_def reading_def accumulate_def)
    with 1 FetchBatch show ?thesis by simp
  next
    case (Tick env)
    then have "reading compression (fst (bw_step e bc)) p = reading compression bc p"
      using emit_keeps_label [of env bc p] by (auto split: prod.splits option.splits)
    with 1 Tick show ?thesis by simp
  qed (use 1 in \<open>simp_all add: recordBrokerRead_def recordBrokerWrite_def reading_def\<close>)
qed simp

end
