(* ===== verification/Compatibility.thy ===== *)
theory Compatibility
  imports Franz_Prelude
begin

text \<open>
  The fallback balancers (\<open>franzadapter/compatibility.go\<close>): the four balancers in priority order,
  each wrapped so that the one the group negotiates logs its selection once. A \<open>kgo.GroupBalancer\<close>
  is the client library's: here its protocol name, whether it is cooperative, and its parser of
  the sync assignment, all of them parameters of the model. Log lines go to the standard logger
  and are values of \<open>balancer_line\<close>, one constructor for each format string.
\<close>

type_synonym assignment = "(string, int list) gomap"

record GroupBalancer =
  ProtocolName :: string
  IsCooperative :: bool
  ParseSync :: "string \<Rightarrow> go_error + assignment"

datatype balancer_line =
    UsingCooperative string
  | UsingEager string
  | FallbackWarning string string string

record loggingBalancer =
  lb_GroupBalancer :: GroupBalancer
  lb_index :: nat
  lb_skipped :: "string list"
  lb_logged :: bool

text \<open>\<open>strings.Join(_, ", ")\<close>\<close>

fun join_comma :: "string list \<Rightarrow> string" where
  "join_comma [] = []"
| "join_comma [x] = x"
| "join_comma (x # xs) = x @ '', '' @ join_comma xs"

definition wrap_balancer :: "GroupBalancer list \<Rightarrow> nat \<Rightarrow> loggingBalancer" where
  "wrap_balancer balancers i =
     \<lparr>lb_GroupBalancer = balancers ! i, lb_index = i,
      lb_skipped = map (\<lambda>j. ProtocolName (balancers ! j)) [0..<i], lb_logged = False\<rparr>"

text \<open>\<open>CompatibilityBalancers\<close>, on the four balancers of the client library in the source's order.\<close>

definition CompatibilityBalancers ::
  "GroupBalancer \<Rightarrow> GroupBalancer \<Rightarrow> GroupBalancer \<Rightarrow> GroupBalancer \<Rightarrow> loggingBalancer list" where
  "CompatibilityBalancers cooperativeSticky sticky roundRobin rangeB =
     (let balancers = [cooperativeSticky, sticky, roundRobin, rangeB]
      in map (wrap_balancer balancers) [0..<length balancers])"

text \<open>The body of \<open>logged.Do\<close>.\<close>

definition selection_line :: "loggingBalancer \<Rightarrow> balancer_line" where
  "selection_line lb =
     (let name = ProtocolName (lb_GroupBalancer lb);
          cooperative = IsCooperative (lb_GroupBalancer lb)
      in if lb_index lb = 0
         then (if cooperative then UsingCooperative name else UsingEager name)
         else FallbackWarning name (if cooperative then ''cooperative'' else ''eager'')
                (join_comma (lb_skipped lb)))"

definition ParseSyncAssignment ::
  "string \<Rightarrow> loggingBalancer \<Rightarrow> (go_error + assignment) \<times> balancer_line list \<times> loggingBalancer" where
  "ParseSyncAssignment bytes lb =
     (let lines = (if lb_logged lb then [] else [selection_line lb]);
          lb' = lb\<lparr>lb_logged := True\<rparr>
      in (case ParseSync (lb_GroupBalancer lb) bytes of
            Inl err \<Rightarrow> (Inl (WrapError ''parse sync assignment: '' err), lines, lb')
          | Inr result \<Rightarrow> (Inr result, lines, lb')))"

fun parse_all :: "string list \<Rightarrow> loggingBalancer \<Rightarrow> (go_error + assignment) list \<times> balancer_line list" where
  "parse_all [] lb = ([], [])"
| "parse_all (b # bs) lb =
     (case ParseSyncAssignment b lb of
        (r, lines, lb') \<Rightarrow> (case parse_all bs lb' of (rs, ls) \<Rightarrow> (r # rs, lines @ ls)))"

section \<open>Properties\<close>

text \<open>\<open>lb_logged\<close> is the balancer's \<open>sync.Once\<close>: only the first call can change it.\<close>

interpretation balancer_once: once_guard lb_logged "\<lambda>bytes lb. snd (snd (ParseSyncAssignment bytes lb))"
  by unfold_locales (auto simp: ParseSyncAssignment_def Let_def split: sum.splits)

lemma parse_logged:
  "lb_logged lb \<Longrightarrow> fst (snd (ParseSyncAssignment bytes lb)) = []"
  by (simp add: ParseSyncAssignment_def Let_def split: sum.splits)

lemma parse_all_logged: "lb_logged lb \<Longrightarrow> snd (parse_all bs lb) = []"
proof (induction bs arbitrary: lb)
  case (Cons b bs)
  have "snd (snd (ParseSyncAssignment b lb)) = lb" by (rule balancer_once.fired_idle [OF Cons.prems])
  with Cons.IH [OF Cons.prems] parse_logged [OF Cons.prems, of b] show ?case
    by (auto split: prod.splits)
qed simp

lemma parse_first_lines:
  "\<not> lb_logged lb \<Longrightarrow> fst (snd (ParseSyncAssignment b lb)) = [selection_line lb]"
  by (simp add: ParseSyncAssignment_def Let_def split: sum.splits)

lemma parse_all_lines:
  "snd (parse_all (b # bs) lb) = (if lb_logged lb then [] else [selection_line lb])"
proof (cases "lb_logged lb")
  case True
  then show ?thesis by (simp only: parse_all_logged if_True)
next
  case False
  have "lb_logged (snd (snd (ParseSyncAssignment b lb)))" by (rule balancer_once.call_fires)
  from parse_all_logged [OF this, of bs] parse_first_lines [OF False, of b] False show ?thesis
    by (auto split: prod.splits)
qed

lemma parse_all_results:
  "fst (parse_all bs lb) =
     map (\<lambda>b. case ParseSync (lb_GroupBalancer lb) b of
             Inl err \<Rightarrow> Inl (WrapError ''parse sync assignment: '' err) | Inr r \<Rightarrow> Inr r) bs"
proof (induction bs arbitrary: lb)
  case (Cons b bs)
  have "lb_GroupBalancer (snd (snd (ParseSyncAssignment b lb))) = lb_GroupBalancer lb"
    by (simp add: ParseSyncAssignment_def Let_def split: sum.splits)
  moreover have "fst (ParseSyncAssignment b lb) = (case ParseSync (lb_GroupBalancer lb) b of
      Inl err \<Rightarrow> Inl (WrapError ''parse sync assignment: '' err) | Inr r \<Rightarrow> Inr r)"
    by (simp add: ParseSyncAssignment_def Let_def split: sum.splits)
  ultimately show ?case
    using Cons.IH [of "snd (snd (ParseSyncAssignment b lb))"] by (auto split: prod.splits)
qed simp

text \<open>
  C31. The compatibility option lists the four balancers in priority order, each carrying exactly
  the names of the balancers before it; however often the selected one parses an assignment, it
  logs its selection once, as information when it is the preferred balancer and otherwise as a
  warning naming every skipped protocol, and it returns what the wrapped balancer returns, an
  error being wrapped with its cause kept.
\<close>

theorem compatibility_balancers_spec:
  "map lb_GroupBalancer (CompatibilityBalancers cs st rr rg) = [cs, st, rr, rg] \<and>
   map lb_skipped (CompatibilityBalancers cs st rr rg) =
     [[], [ProtocolName cs], [ProtocolName cs, ProtocolName st],
      [ProtocolName cs, ProtocolName st, ProtocolName rr]] \<and>
   map (\<lambda>lb. snd (parse_all (b # bs) lb)) (CompatibilityBalancers cs st rr rg) =
     [[if IsCooperative cs then UsingCooperative (ProtocolName cs) else UsingEager (ProtocolName cs)],
      [FallbackWarning (ProtocolName st) (if IsCooperative st then ''cooperative'' else ''eager'')
         (ProtocolName cs)],
      [FallbackWarning (ProtocolName rr) (if IsCooperative rr then ''cooperative'' else ''eager'')
         (ProtocolName cs @ '', '' @ ProtocolName st)],
      [FallbackWarning (ProtocolName rg) (if IsCooperative rg then ''cooperative'' else ''eager'')
         (ProtocolName cs @ '', '' @ ProtocolName st @ '', '' @ ProtocolName rr)]] \<and>
   fst (parse_all bs lb) =
     map (\<lambda>b. case ParseSync (lb_GroupBalancer lb) b of
             Inl err \<Rightarrow> Inl (WrapError ''parse sync assignment: '' err) | Inr r \<Rightarrow> Inr r) bs"
  by (simp del: parse_all.simps add: parse_all_lines parse_all_results CompatibilityBalancers_def
      wrap_balancer_def selection_line_def Let_def upt_conv_Cons)

end
