(* ===== verification/Validate_Client.thy ===== *)
theory Validate_Client
  imports Compatibility
begin

text \<open>
  Client validation (\<open>franzadapter/validate/client.go\<close>). The values come from the client library's
  \<open>OptValue\<close>, so the model takes them as a parameter: for each option the checks read, the dynamic
  value it returned, nil included, since the code's type assertions look at exactly that. A check
  either panics or logs; the log lines are values of \<open>validate_line\<close>.
\<close>

text \<open>A value of Go's type \<open>any\<close>, as far as the checks distinguish them.\<close>

datatype any_value =
    AnyNil
  | AnyBool bool
  | AnyInt8 int
  | AnyDuration duration
  | AnyBalancers "GroupBalancer list"
  | AnyOther

record opt_values =
  ov_DisableAutoCommit :: any_value
  ov_BlockRebalanceOnPoll :: any_value
  ov_Balancers :: any_value
  ov_FetchIsolationLevel :: any_value
  ov_SessionTimeout :: any_value
  ov_RebalanceTimeout :: any_value

datatype validate_line =
    ProtocolLine balancer_line
  | IsolationDefault
  | IsolationUncommitted
  | SessionTimeoutLow duration duration
  | RebalanceTimeoutLow duration duration

type_synonym 'a checks = "(validate_line list, 'a) go"

definition log_line :: "validate_line \<Rightarrow> unit checks" where
  "log_line l = go_modify (\<lambda>ls. ls @ [l])"

definition autoCommitPanic :: string where
  "autoCommitPanic = ''kgo.DisableAutoCommit() is required; auto-commit conflicts with explicit offset '' @
     ''management and risks message loss''"

definition blockRebalancePanic :: string where
  "blockRebalancePanic = ''kgo.BlockRebalanceOnPoll() is required; without it, rebalances can occur during '' @
     ''message processing, risking offset commits for revoked partitions''"

definition ensureAutoCommitDisabled :: "opt_values \<Rightarrow> unit checks" where
  "ensureAutoCommitDisabled c =
     (case ov_DisableAutoCommit c of
        AnyNil \<Rightarrow> go_panic autoCommitPanic
      | AnyBool disabled \<Rightarrow> (if \<not> disabled then go_panic autoCommitPanic else go_return ())
      | _ \<Rightarrow> go_panic autoCommitPanic)"

definition ensureBlockRebalanceOnPoll :: "opt_values \<Rightarrow> unit checks" where
  "ensureBlockRebalanceOnPoll c =
     (case ov_BlockRebalanceOnPoll c of
        AnyNil \<Rightarrow> go_panic blockRebalancePanic
      | AnyBool enabled \<Rightarrow> (if \<not> enabled then go_panic blockRebalancePanic else go_return ())
      | _ \<Rightarrow> go_panic blockRebalancePanic)"

definition logBalancerProtocol :: "opt_values \<Rightarrow> unit checks" where
  "logBalancerProtocol c =
     (case ov_Balancers c of
        AnyBalancers balancers \<Rightarrow>
          (case balancers of
             [] \<Rightarrow> go_return ()
           | [primary] \<Rightarrow>
               log_line (ProtocolLine (if IsCooperative primary
                                       then UsingCooperative (ProtocolName primary)
                                       else UsingEager (ProtocolName primary)))
           | _ \<Rightarrow> go_return ())
      | _ \<Rightarrow> go_return ())"

definition warnIfReadUncommitted :: "opt_values \<Rightarrow> unit checks" where
  "warnIfReadUncommitted c =
     (case ov_FetchIsolationLevel c of
        AnyNil \<Rightarrow> log_line IsolationDefault
      | AnyInt8 lv \<Rightarrow> go_when (lv = 0) (log_line IsolationUncommitted)
      | _ \<Rightarrow> go_return ())"

definition warnIfSessionTimeoutTooLow :: "opt_values \<Rightarrow> unit checks" where
  "warnIfSessionTimeoutTooLow c =
     (case ov_SessionTimeout c of
        AnyDuration timeout \<Rightarrow>
          go_when (timeout < 25 * Second) (log_line (SessionTimeoutLow timeout (25 * Second)))
      | _ \<Rightarrow> go_return ())"

definition warnIfRebalanceTimeoutTooLow :: "opt_values \<Rightarrow> unit checks" where
  "warnIfRebalanceTimeoutTooLow c =
     (case ov_RebalanceTimeout c of
        AnyDuration timeout \<Rightarrow>
          go_when (timeout < 30 * Second) (log_line (RebalanceTimeoutLow timeout (30 * Second)))
      | _ \<Rightarrow> go_return ())"

text \<open>\<open>validate.Client\<close>\<close>

definition Client :: "opt_values \<Rightarrow> unit checks" where
  "Client c =
     go_bind (ensureAutoCommitDisabled c) (\<lambda>_.
     go_bind (ensureBlockRebalanceOnPoll c) (\<lambda>_.
     go_bind (logBalancerProtocol c) (\<lambda>_.
     go_bind (warnIfReadUncommitted c) (\<lambda>_.
     go_bind (warnIfSessionTimeoutTooLow c) (\<lambda>_.
     warnIfRebalanceTimeoutTooLow c)))))"

section \<open>Properties\<close>

definition required_ok :: "opt_values \<Rightarrow> bool" where
  "required_ok c = (ov_DisableAutoCommit c = AnyBool True \<and> ov_BlockRebalanceOnPoll c = AnyBool True)"

text \<open>The advisory lines, as a function of the option values.\<close>

definition advisories :: "opt_values \<Rightarrow> validate_line list" where
  "advisories c =
     (case ov_Balancers c of
        AnyBalancers [b] \<Rightarrow> [ProtocolLine (if IsCooperative b then UsingCooperative (ProtocolName b)
                                             else UsingEager (ProtocolName b))]
      | _ \<Rightarrow> []) @
     (case ov_FetchIsolationLevel c of
        AnyNil \<Rightarrow> [IsolationDefault]
      | AnyInt8 lv \<Rightarrow> (if lv = 0 then [IsolationUncommitted] else [])
      | _ \<Rightarrow> []) @
     (case ov_SessionTimeout c of
        AnyDuration t \<Rightarrow> (if t < 25 * Second then [SessionTimeoutLow t (25 * Second)] else [])
      | _ \<Rightarrow> []) @
     (case ov_RebalanceTimeout c of
        AnyDuration t \<Rightarrow> (if t < 30 * Second then [RebalanceTimeoutLow t (30 * Second)] else [])
      | _ \<Rightarrow> [])"

lemma ensures_run:
  "ensureAutoCommitDisabled c ls =
     (if ov_DisableAutoCommit c = AnyBool True then (Ok (), ls) else (Panic autoCommitPanic, ls))"
  "ensureBlockRebalanceOnPoll c ls =
     (if ov_BlockRebalanceOnPoll c = AnyBool True then (Ok (), ls) else (Panic blockRebalancePanic, ls))"
  by (auto simp: ensureAutoCommitDisabled_def ensureBlockRebalanceOnPoll_def split: any_value.splits)

lemma advisory_runs:
  "logBalancerProtocol c ls = (Ok (), ls @ (case ov_Balancers c of
     AnyBalancers [b] \<Rightarrow> [ProtocolLine (if IsCooperative b then UsingCooperative (ProtocolName b)
                                          else UsingEager (ProtocolName b))] | _ \<Rightarrow> []))"
  "warnIfReadUncommitted c ls = (Ok (), ls @ (case ov_FetchIsolationLevel c of
     AnyNil \<Rightarrow> [IsolationDefault] | AnyInt8 lv \<Rightarrow> (if lv = 0 then [IsolationUncommitted] else [])
     | _ \<Rightarrow> []))"
  "warnIfSessionTimeoutTooLow c ls = (Ok (), ls @ (case ov_SessionTimeout c of
     AnyDuration t \<Rightarrow> (if t < 25 * Second then [SessionTimeoutLow t (25 * Second)] else []) | _ \<Rightarrow> []))"
  "warnIfRebalanceTimeoutTooLow c ls = (Ok (), ls @ (case ov_RebalanceTimeout c of
     AnyDuration t \<Rightarrow> (if t < 30 * Second then [RebalanceTimeoutLow t (30 * Second)] else []) | _ \<Rightarrow> []))"
  by (simp_all add: logBalancerProtocol_def warnIfReadUncommitted_def warnIfSessionTimeoutTooLow_def
      warnIfRebalanceTimeoutTooLow_def log_line_def go_when_app split: any_value.split list.split)

text \<open>
  C28. Validation accepts a client exactly when auto-commit is disabled and rebalances are blocked
  on poll, both read as the boolean true (a missing or wrongly typed value is refused). It panics
  before it logs anything, and an accepted client gets exactly the advisory lines its settings
  call for: the protocol of a single balancer, the isolation level, a session timeout under 25
  seconds and a rebalance timeout under 30 seconds.
\<close>

theorem validate_client_spec:
  "Client c ls =
     (if ov_DisableAutoCommit c \<noteq> AnyBool True then (Panic autoCommitPanic, ls)
      else if ov_BlockRebalanceOnPoll c \<noteq> AnyBool True then (Panic blockRebalancePanic, ls)
      else (Ok (), ls @ advisories c)) \<and>
   (panics (Client c ls) \<longleftrightarrow> \<not> required_ok c)"
  by (simp add: Client_def go_bind_def ensures_run advisory_runs advisories_def required_ok_def)

end
