(* ===== verification/Adapter_State.thy ===== *)
theory Adapter_State
  imports Client_Log Bandwidth Validate_Client
begin

text \<open>
  The adapter's state and the data it exchanges with its two neighbours.

  \<^item> From franz-go (\<open>kgo\<close>, \<open>kerr\<close>): records, the view of a poll result that the code reads, the
    options a client is built with. A client is a handle; a function field wired from a client
    (\<open>a.closeFn = client.CloseAllowingRebalance\<close>) is the handle it is bound to, or \<open>None\<close> for nil.
  \<^item> From llingr-nexus: rebalance infos, the envelope, and a consumer, of which the code uses
    whether it implements \<open>EmergencyShutdowner\<close>, its context and its logger.
  \<^item> \<open>adapter\<close> is the source's struct, field by field, plus \<open>a_effects\<close>, the trace of the calls
    the adapter has made to the outside: logger, consumer and client. What those calls answer is
    a parameter of the operation that makes them.

  Calling a method of a nil logger or a nil function field panics, as in Go.
\<close>

section \<open>Records and poll results\<close>

record kgo_record =
  rTopic :: string
  rPartition :: int
  rOffset :: int
  rKey :: "byte list"

text \<open>
  \<open>kgo.Fetches\<close>, through the accessors the adapter calls: the records and the errors in the order
  \<open>EachRecord\<close> and \<open>EachError\<close> visit them, and the answers of \<open>IsClientClosed\<close> and \<open>Err\<close>.
\<close>

record fetches =
  IsClientClosed :: bool
  EachRecord :: "kgo_record list"
  EachError :: "(string \<times> int \<times> go_error) list"
  fetches_Err :: "go_error option"

section \<open>Options of a kgo client\<close>

datatype callback_fn = OnAssignedFn | OnRevokedFn | OnLostFn | UserFn nat

datatype kgo_opt =
    OptSeedBrokers "string list"
  | OptConsumerGroup string
  | OptConsumeTopics "string list"
  | OptBalancers "string list"
  | OptWithLogger "nat option"
  | OptDisableAutoCommit
  | OptBlockRebalanceOnPoll
  | OptOnPartitionsAssigned callback_fn
  | OptOnPartitionsRevoked callback_fn
  | OptOnPartitionsLost callback_fn
  | OptWithHooksAdapter
  | OptOther nat

section \<open>The consumer side\<close>

datatype RebalanceType = Assign | Revoke

record RebalanceInfo =
  ri_RebalanceType :: RebalanceType
  ri_TopicName :: string
  ri_Partition :: int
  ri_CommittedOffset :: int

record consumer =
  c_id :: nat
  c_EmergencyShutdowner :: bool
  c_Context :: nat
  c_Logger :: "nat option"

section \<open>The trace of outside calls\<close>

text \<open>One constructor for each message the adapter logs, with the values it formats.\<close>

datatype log_msg =
    MsgSubscribed string
  | MsgFetchLoopStopped
  | MsgFetchLoopNotStopped duration
  | MsgLeftGroup
  | MsgLeaveInFlight duration
  | MsgLeaveFailed go_error
  | MsgClosingClient
  | MsgClientClosed
  | MsgForeignTopic go_error
  | MsgPollError string int duration go_error
  | MsgStoppingConsumer go_error
  | MsgCannotEscalate
  | MsgCommitFailed go_error
  | MsgMembershipLost string
  | MsgCommitted nat
  | MsgRevokeFailed go_error
  | MsgAssigned assignment
  | MsgRevoked assignment
  | MsgLookupFailed go_error

datatype effect =
    Logged severity log_msg
  | TriggeredRebalance RebalanceType "RebalanceInfo list" "go_error option"
  | FetchedCommitted "string list"
  | CommittedRecords "kgo_record list"
  | EmergencyShutdown go_error
  | SpawnedUnsubscribe
  | StartedFetchLoop
  | StoppedCollector
  | CancelledFetch
  | LeftGroup "go_error option"
  | ClosedClient nat
  | BackedOff duration
  | BuiltClient "kgo_opt list"

section \<open>The adapter\<close>

datatype chan = ChanNil | ChanOpen | ChanClosed

record adapter =
  a_client :: "nat option"
  a_logger :: "nat option"
  a_ctx :: "nat option"
  a_topicName :: string
  a_adaptedConsumer :: "consumer option"
  a_pendingAssigned :: assignment
  a_pendingRevoked :: assignment
  a_pendingRecord :: "kgo_record option"
  a_fetchedRecords :: chan
  a_recordDispatched :: chan
  a_fetchLoopDone :: chan
  a_fetchCancelled :: bool
  a_fetchCancel :: bool
  a_fetchStart :: bool
  a_recordAwaitingDispatch :: bool
  a_initCtx :: "nat option"
  a_groupID :: string
  a_brokers :: "string list"
  a_userOpts :: "kgo_opt list"
  a_bwCollector :: "bandwidthCollector option"
  a_clientLog :: "clientLogBridge option"
  a_pollRecordsFn :: "nat option"
  a_allowRebalanceFn :: "nat option"
  a_commitRecordsFn :: "nat option"
  a_leaveGroupFn :: "nat option"
  a_closeFn :: "nat option"
  a_fetchCommittedFn :: "nat option"
  a_pollErrSince :: "(string, instant) gomap"
  a_pollErrLogged :: "(string, instant) gomap"
  a_pollErrLastID :: "(string, string) gomap"
  a_opts :: adapterOptions
  a_bailOnce :: bool
  a_unsubscribeOnce :: bool
  a_effects :: "effect list"

definition nilDereference :: string where
  "nilDereference = ''invalid memory address or nil pointer dereference''"

text \<open>A call to the outside, and a call of the logger (which panics when it is nil).\<close>

definition perform :: "effect \<Rightarrow> (adapter, unit) go" where
  "perform e = go_modify (\<lambda>a. a\<lparr>a_effects := a_effects a @ [e]\<rparr>)"

definition logf :: "severity \<Rightarrow> log_msg \<Rightarrow> (adapter, unit) go" where
  "logf sev m =
     (\<lambda>a. case a_logger a of
        None \<Rightarrow> (Panic nilDereference, a)
      | Some _ \<Rightarrow> perform (Logged sev m) a)"

text \<open>The guarded form \<open>if a.logger != nil { ... }\<close>.\<close>

definition logf_if_set :: "severity \<Rightarrow> log_msg \<Rightarrow> (adapter, unit) go" where
  "logf_if_set sev m = (\<lambda>a. if a_logger a = None then (Ok (), a) else logf sev m a)"

lemma perform_app [simp, go_simps]: "perform e a = (Ok (), a\<lparr>a_effects := a_effects a @ [e]\<rparr>)"
  by (simp add: perform_def)

lemma logf_app [go_simps]:
  "logf sev m a = (if a_logger a = None then (Panic nilDereference, a)
                   else (Ok (), a\<lparr>a_effects := a_effects a @ [Logged sev m]\<rparr>))"
  by (simp add: logf_def split: option.splits)

lemma logf_if_set_app [go_simps]:
  "logf_if_set sev m a =
     (Ok (), if a_logger a = None then a else a\<lparr>a_effects := a_effects a @ [Logged sev m]\<rparr>)"
  by (simp add: logf_if_set_def logf_app)

lemma go_bind_perform [simp, go_simps]:
  "go_bind (perform e) f a = f () (a\<lparr>a_effects := a_effects a @ [e]\<rparr>)"
  by (simp add: go_bind_app)

lemma go_bind_logf [go_simps]:
  "go_bind (logf sev m) f a =
     (if a_logger a = None then (Panic nilDereference, a)
      else f () (a\<lparr>a_effects := a_effects a @ [Logged sev m]\<rparr>))"
  by (simp add: go_bind_app logf_app)

lemma go_bind_logf_if_set [go_simps]:
  "go_bind (logf_if_set sev m) f a =
     f () (if a_logger a = None then a else a\<lparr>a_effects := a_effects a @ [Logged sev m]\<rparr>)"
  by (simp add: go_bind_app logf_if_set_app)

text \<open>
  Frame conditions are stated with \<open>only_effects\<close>: nothing but the trace changed, and the trace
  only grew.
\<close>

definition only_effects :: "adapter \<Rightarrow> adapter \<Rightarrow> bool" where
  "only_effects a b = (\<exists>es. b = a\<lparr>a_effects := a_effects a @ es\<rparr>)"

lemma only_effectsI: "b = a\<lparr>a_effects := a_effects a @ es\<rparr> \<Longrightarrow> only_effects a b"
  by (auto simp: only_effects_def)

lemma only_effects_refl [simp]: "only_effects a a"
  by (rule only_effectsI [where es = "[]"]) simp

lemma only_effects_trans [trans]: "only_effects a b \<Longrightarrow> only_effects b c \<Longrightarrow> only_effects a c"
  by (auto simp: only_effects_def)

lemma reflp_only_effects [simp, intro]: "reflp only_effects"
  by (simp add: reflpI)

lemma transp_only_effects [simp, intro]: "transp only_effects"
  by (blast intro: transpI only_effects_trans)

lemma keeps_perform [simp, intro]: "keeps only_effects (perform e)"
  by (auto simp: keeps_def intro: only_effectsI)

lemma keeps_logf [simp, intro]: "keeps only_effects (logf sev m)"
  by (auto simp: keeps_def logf_app intro: only_effectsI)

lemma keeps_logf_if_set [simp, intro]: "keeps only_effects (logf_if_set sev m)"
  by (auto simp: keeps_def logf_if_set_app intro: only_effectsI)

section \<open>Construction\<close>

text \<open>
  \<open>NewCustom\<close>, \<open>NewWithOptions\<close> and \<open>New\<close>. Fields a composite literal leaves out have Go's zero
  value.
\<close>

definition NewCustom :: adapter where
  "NewCustom =
     \<lparr>a_client = None, a_logger = None, a_ctx = None, a_topicName = [], a_adaptedConsumer = None,
      a_pendingAssigned = [], a_pendingRevoked = [], a_pendingRecord = None,
      a_fetchedRecords = ChanNil, a_recordDispatched = ChanNil, a_fetchLoopDone = ChanNil,
      a_fetchCancelled = False, a_fetchCancel = False, a_fetchStart = False,
      a_recordAwaitingDispatch = False, a_initCtx = None, a_groupID = [], a_brokers = [],
      a_userOpts = [], a_bwCollector = None, a_clientLog = None, a_pollRecordsFn = None,
      a_allowRebalanceFn = None, a_commitRecordsFn = None, a_leaveGroupFn = None,
      a_closeFn = None, a_fetchCommittedFn = None, a_pollErrSince = [], a_pollErrLogged = [],
      a_pollErrLastID = [], a_opts = defaultAdapterOptions, a_bailOnce = False,
      a_unsubscribeOnce = False, a_effects = []\<rparr>"

definition NewWithOptions ::
  "nat option \<Rightarrow> string \<Rightarrow> string list \<Rightarrow> kgo_opt list \<Rightarrow> adapter outcome" where
  "NewWithOptions c grp brks opts =
     (if grp = [] then Panic ''franzadapter: New/NewWithOptions require a consumer group''
      else Ok (NewCustom\<lparr>a_initCtx := c, a_groupID := grp, a_brokers := brks, a_userOpts := opts\<rparr>))"

definition New :: "nat option \<Rightarrow> string \<Rightarrow> string list \<Rightarrow> adapter outcome" where
  "New c grp brks = NewWithOptions c grp brks []"

end
