(* ===== verification/Rebalance.thy ===== *)
theory Rebalance
  imports Adapter_State
begin

text \<open>
  Rebalance coordination (\<open>franzadapter/rebalance.go\<close>). Assigns are queued by the client's callback
  and handed to the consumer from the poll loop; revokes are handed over inside the callback.
  What the outside answers is \<open>rebalance_env\<close>: the committed-offset query, the consumer's
  \<open>TriggerRebalance\<close>, and the order of the two \<open>range\<close> loops. \<open>processPendingRebalances\<close> holds the
  lock only at its two ends, so the assignments that \<open>OnAssigned\<close> queues in between are an
  argument of it.

  The queue is compared with an abstract specification, the multiset of (topic, partition) pairs
  waiting for the consumer (\<open>pending_pairs\<close>); the locale \<open>assign_queue\<close> is that contract.
\<close>

section \<open>Operations\<close>

type_synonym committed_offsets = "(string, (int, int) gomap) gomap"

record rebalance_env =
  re_topicOrder :: "assignment \<Rightarrow> assignment"
  re_infoOrder :: "assignment \<Rightarrow> assignment"
  re_fetchCommitted :: "string list \<Rightarrow> go_error + committed_offsets"
  re_TriggerRebalance :: "RebalanceType \<Rightarrow> RebalanceInfo list \<Rightarrow> go_error option"

definition queue_back :: "string \<times> int list \<Rightarrow> assignment \<Rightarrow> assignment" where
  "queue_back e m = gm_put (fst e) (gm_slice m (fst e) @ snd e) m"

definition queue_front :: "string \<times> int list \<Rightarrow> assignment \<Rightarrow> assignment" where
  "queue_front e m = gm_put (fst e) (snd e @ gm_slice m (fst e)) m"

definition OnAssigned :: "assignment \<Rightarrow> adapter \<Rightarrow> adapter" where
  "OnAssigned assigned a =
     a\<lparr>a_pendingAssigned := fold queue_back assigned (a_pendingAssigned a)\<rparr>"

definition lookupAssignmentOffsets ::
  "rebalance_env \<Rightarrow> assignment \<Rightarrow> (adapter, committed_offsets) go" where
  "lookupAssignmentOffsets env assigned =
     (\<lambda>a. if \<not> assignmentOffsetLookup (a_opts a) \<or> a_fetchCommittedFn a = None
          then (Ok [], a)
          else if a_ctx a = None then (Panic ''cannot create context from nil parent'', a)
          else
            (let topics = gm_keys (re_topicOrder env assigned)
             in go_bind (perform (FetchedCommitted topics)) (\<lambda>_.
                (case re_fetchCommitted env topics of
                   Inl err \<Rightarrow> go_bind (logf SevWarn (MsgLookupFailed err)) (\<lambda>_. go_return [])
                 | Inr committed \<Rightarrow> go_return committed)) a))"

text \<open>The offset a partition is announced with: the committed one, or -1 for unknown.\<close>

definition baseline :: "committed_offsets \<Rightarrow> string \<Rightarrow> int \<Rightarrow> int" where
  "baseline committed topic p =
     (case map_of committed topic of
        None \<Rightarrow> -1
      | Some partitionOffsets \<Rightarrow>
          (case map_of partitionOffsets p of
             None \<Rightarrow> -1
           | Some committedOffset \<Rightarrow> if committedOffset \<ge> 0 then committedOffset else -1))"

definition rebalance_infos ::
  "RebalanceType \<Rightarrow> (string \<Rightarrow> int \<Rightarrow> int) \<Rightarrow> assignment \<Rightarrow> RebalanceInfo list" where
  "rebalance_infos ty offset m =
     concat (map (\<lambda>(topic, partitions).
       map (\<lambda>p. \<lparr>ri_RebalanceType = ty, ri_TopicName = topic, ri_Partition = p,
                 ri_CommittedOffset = offset topic p\<rparr>) partitions) m)"

definition triggerAssign :: "rebalance_env \<Rightarrow> assignment \<Rightarrow> (adapter, go_error option) go" where
  "triggerAssign env assigned =
     (\<lambda>a. if a_adaptedConsumer a = None then (Ok None, a)
          else go_bind (lookupAssignmentOffsets env assigned) (\<lambda>committed.
               (let info = rebalance_infos Assign (baseline committed) (re_infoOrder env assigned);
                    err = re_TriggerRebalance env Assign info
                in go_bind (logf SevInfo (MsgAssigned assigned)) (\<lambda>_.
                   go_bind (perform (TriggeredRebalance Assign info err)) (\<lambda>_.
                   go_return (map_option
                     (WrapError ''failed to trigger rebalance (assign): '') err))))) a)"

text \<open>The two critical sections of \<open>processPendingRebalances\<close> and the whole of it.\<close>

definition takePending :: "adapter \<Rightarrow> assignment \<times> adapter" where
  "takePending a = (a_pendingAssigned a, a\<lparr>a_pendingAssigned := []\<rparr>)"

definition requeuePending :: "assignment \<Rightarrow> adapter \<Rightarrow> adapter" where
  "requeuePending assigned a =
     a\<lparr>a_pendingAssigned := fold queue_front assigned (a_pendingAssigned a)\<rparr>"

definition processPendingRebalances ::
  "rebalance_env \<Rightarrow> assignment list \<Rightarrow> (adapter, go_error option) go" where
  "processPendingRebalances env queued =
     (\<lambda>a. if a_pendingAssigned a = [] then (Ok None, fold OnAssigned queued a)
          else (case takePending a of
                  (assigned, a1) \<Rightarrow>
                    go_bind (triggerAssign env assigned) (\<lambda>err.
                    go_bind (go_modify (fold OnAssigned queued)) (\<lambda>_.
                    (case err of
                       None \<Rightarrow> go_return None
                     | Some e \<Rightarrow>
                         go_bind (go_modify (requeuePending assigned)) (\<lambda>_.
                         go_return (Some e))))) a1))"

definition triggerRevoke :: "rebalance_env \<Rightarrow> assignment \<Rightarrow> (adapter, go_error option) go" where
  "triggerRevoke env revoked =
     (\<lambda>a. if a_adaptedConsumer a = None then (Ok None, a)
          else (let info = rebalance_infos Revoke (\<lambda>_ _. -1) (re_infoOrder env revoked);
                    err = re_TriggerRebalance env Revoke info
                in go_bind (logf SevInfo (MsgRevoked revoked)) (\<lambda>_.
                   go_bind (perform (TriggeredRebalance Revoke info err)) (\<lambda>_.
                   go_return (map_option
                     (WrapError ''failed to trigger rebalance (revoke): '') err)))) a)"

definition OnRevoked :: "rebalance_env \<Rightarrow> assignment \<Rightarrow> (adapter, unit) go" where
  "OnRevoked env revoked =
     (if revoked = [] then go_return ()
      else go_bind (triggerRevoke env revoked) (\<lambda>err.
           (case err of
              None \<Rightarrow> go_return ()
            | Some e \<Rightarrow> logf SevError (MsgRevokeFailed e))))"

definition OnLost :: "rebalance_env \<Rightarrow> assignment \<Rightarrow> (adapter, unit) go" where
  "OnLost env lost = OnRevoked env lost"

section \<open>The queue as a multiset of pairs\<close>

definition pairs_of :: "assignment \<Rightarrow> (string \<times> int) multiset" where
  "pairs_of m = mset (concat (map (\<lambda>(t, ps). map (Pair t) ps) m))"

definition pending_pairs :: "adapter \<Rightarrow> (string \<times> int) multiset" where
  "pending_pairs a = pairs_of (a_pendingAssigned a)"

lemma pairs_of_Nil [simp]: "pairs_of [] = {#}"
  by (simp add: pairs_of_def)

lemma pairs_of_Cons: "pairs_of (e # m) = mset (map (Pair (fst e)) (snd e)) + pairs_of m"
  by (simp add: pairs_of_def split: prod.splits)

lemma pairs_of_put:
  "pairs_of (gm_put t vs m) + mset (map (Pair t) (gm_slice m t)) =
     pairs_of m + mset (map (Pair t) vs)"
  by (induction m) (auto simp: pairs_of_Cons gm_slice_def)

lemma pairs_queue_back: "pairs_of (queue_back e m) = pairs_of m + mset (map (Pair (fst e)) (snd e))"
  using pairs_of_put [of "fst e" "gm_slice m (fst e) @ snd e" m]
  by (simp add: queue_back_def)

lemma pairs_queue_front: "pairs_of (queue_front e m) = pairs_of m + mset (map (Pair (fst e)) (snd e))"
  using pairs_of_put [of "fst e" "snd e @ gm_slice m (fst e)" m]
  by (simp add: queue_front_def)

lemma pairs_fold_back: "pairs_of (fold queue_back es m) = pairs_of m + pairs_of es"
  by (induction es arbitrary: m) (simp_all add: pairs_queue_back pairs_of_Cons)

lemma pairs_fold_front: "pairs_of (fold queue_front es m) = pairs_of m + pairs_of es"
  by (induction es arbitrary: m) (simp_all add: pairs_queue_front pairs_of_Cons)

lemma pending_OnAssigned [simp]: "pending_pairs (OnAssigned m a) = pending_pairs a + pairs_of m"
  by (simp add: pending_pairs_def OnAssigned_def pairs_fold_back)

lemma pending_requeue [simp]: "pending_pairs (requeuePending m a) = pending_pairs a + pairs_of m"
  by (simp add: pending_pairs_def requeuePending_def pairs_fold_front)

lemma pending_fold_OnAssigned:
  "pending_pairs (fold OnAssigned ms a) = pending_pairs a + sum_list (map pairs_of ms)"
  by (induction ms arbitrary: a) (simp_all add: add.assoc)

lemma infos_list:
  "map (\<lambda>i. (ri_TopicName i, ri_Partition i)) (rebalance_infos ty off m) =
     concat (map (\<lambda>(t, ps). map (Pair t) ps) m)"
  by (induction m) (auto simp: rebalance_infos_def o_def)

lemma infos_pairs:
  "mset (map (\<lambda>i. (ri_TopicName i, ri_Partition i)) (rebalance_infos ty off m)) = pairs_of m"
  by (simp only: infos_list pairs_of_def)

lemma pairs_of_sum: "pairs_of m = sum_mset (image_mset (\<lambda>e. mset (map (Pair (fst e)) (snd e))) (mset m))"
  by (induction m) (simp_all add: pairs_of_Cons)

lemma pairs_range: "range_order f \<Longrightarrow> pairs_of (f m) = pairs_of m"
  by (simp only: pairs_of_sum range_order_mset)

section \<open>What a wired adapter does\<close>

text \<open>The state \<open>CreateConsumer\<close> leaves behind: logger, context and consumer are set.\<close>

definition wired :: "adapter \<Rightarrow> bool" where
  "wired a = (a_logger a \<noteq> None \<and> a_ctx a \<noteq> None \<and> a_adaptedConsumer a \<noteq> None)"

definition offsets_seen :: "rebalance_env \<Rightarrow> assignment \<Rightarrow> adapter \<Rightarrow> committed_offsets" where
  "offsets_seen env assigned a =
     (if assignmentOffsetLookup (a_opts a) \<and> a_fetchCommittedFn a \<noteq> None
      then (case re_fetchCommitted env (gm_keys (re_topicOrder env assigned)) of
              Inl _ \<Rightarrow> [] | Inr committed \<Rightarrow> committed)
      else [])"

definition lookup_effects :: "rebalance_env \<Rightarrow> assignment \<Rightarrow> adapter \<Rightarrow> effect list" where
  "lookup_effects env assigned a =
     (if assignmentOffsetLookup (a_opts a) \<and> a_fetchCommittedFn a \<noteq> None
      then FetchedCommitted (gm_keys (re_topicOrder env assigned)) #
           (case re_fetchCommitted env (gm_keys (re_topicOrder env assigned)) of
              Inl err \<Rightarrow> [Logged SevWarn (MsgLookupFailed err)] | Inr _ \<Rightarrow> [])
      else [])"

lemma lookup_wired:
  "wired a \<Longrightarrow> lookupAssignmentOffsets env m a =
     (Ok (offsets_seen env m a), a\<lparr>a_effects := a_effects a @ lookup_effects env m a\<rparr>)"
  by (auto simp: wired_def lookupAssignmentOffsets_def offsets_seen_def lookup_effects_def Let_def
      go_bind_logf split: sum.splits)

definition assign_infos :: "rebalance_env \<Rightarrow> assignment \<Rightarrow> adapter \<Rightarrow> RebalanceInfo list" where
  "assign_infos env m a = rebalance_infos Assign (baseline (offsets_seen env m a)) (re_infoOrder env m)"

definition assign_effects :: "rebalance_env \<Rightarrow> assignment \<Rightarrow> adapter \<Rightarrow> effect list" where
  "assign_effects env m a =
     lookup_effects env m a @
     [Logged SevInfo (MsgAssigned m),
      TriggeredRebalance Assign (assign_infos env m a)
        (re_TriggerRebalance env Assign (assign_infos env m a))]"

definition assign_error :: "rebalance_env \<Rightarrow> assignment \<Rightarrow> adapter \<Rightarrow> go_error option" where
  "assign_error env m a =
     map_option (WrapError ''failed to trigger rebalance (assign): '')
       (re_TriggerRebalance env Assign (assign_infos env m a))"

lemma triggerAssign_wired:
  assumes "wired a"
  shows "triggerAssign env m a =
     (Ok (assign_error env m a), a\<lparr>a_effects := a_effects a @ assign_effects env m a\<rparr>)"
proof -
  have "a_adaptedConsumer a \<noteq> None" "a_logger a \<noteq> None" using assms by (simp_all add: wired_def)
  then show ?thesis
    by (simp add: triggerAssign_def go_bind_app [of "lookupAssignmentOffsets env m"]
        lookup_wired [OF assms] Let_def go_bind_logf assign_effects_def assign_infos_def
        assign_error_def del: not_None_eq)
qed

lemma wired_effects [simp]: "wired (a\<lparr>a_effects := es\<rparr>) = wired a"
  by (simp add: wired_def)

lemma wired_pending [simp]: "wired (a\<lparr>a_pendingAssigned := m\<rparr>) = wired a"
  by (simp add: wired_def)

lemma seen_frame [simp]:
  "offsets_seen env m (a\<lparr>a_pendingAssigned := x\<rparr>) = offsets_seen env m a"
  "lookup_effects env m (a\<lparr>a_pendingAssigned := x\<rparr>) = lookup_effects env m a"
  by (simp_all add: offsets_seen_def lookup_effects_def)

lemma assign_frame [simp]:
  "assign_infos env m (a\<lparr>a_pendingAssigned := x\<rparr>) = assign_infos env m a"
  "assign_effects env m (a\<lparr>a_pendingAssigned := x\<rparr>) = assign_effects env m a"
  "assign_error env m (a\<lparr>a_pendingAssigned := x\<rparr>) = assign_error env m a"
  by (simp_all add: assign_infos_def assign_effects_def assign_error_def)

lemma OnAssigned_frame [simp]:
  "a_effects (fold OnAssigned ms a) = a_effects a" "wired (fold OnAssigned ms a) = wired a"
  "a_opts (fold OnAssigned ms a) = a_opts a"
  "a_fetchCommittedFn (fold OnAssigned ms a) = a_fetchCommittedFn a"
  by (induction ms arbitrary: a) (simp_all add: OnAssigned_def)

lemma requeue_frame [simp]:
  "a_effects (requeuePending m a) = a_effects a" "wired (requeuePending m a) = wired a"
  by (simp_all add: requeuePending_def)

text \<open>\<open>processPendingRebalances\<close> on a wired adapter, both branches.\<close>

lemma process_wired:
  assumes "wired a"
  shows "processPendingRebalances env queued a =
    (if a_pendingAssigned a = [] then (Ok None, fold OnAssigned queued a)
     else (let m = a_pendingAssigned a;
               a1 = fold OnAssigned queued
                      (a\<lparr>a_pendingAssigned := [], a_effects := a_effects a @ assign_effects env m a\<rparr>)
           in (case assign_error env m a of
                 None \<Rightarrow> (Ok None, a1)
               | Some e \<Rightarrow> (Ok (Some e), requeuePending m a1))))"
proof (cases "a_pendingAssigned a = []")
  case False
  have "triggerAssign env (a_pendingAssigned a) (a\<lparr>a_pendingAssigned := []\<rparr>) =
      (Ok (assign_error env (a_pendingAssigned a) a),
       a\<lparr>a_pendingAssigned := [],
         a_effects := a_effects a @ assign_effects env (a_pendingAssigned a) a\<rparr>)"
    using triggerAssign_wired [of "a\<lparr>a_pendingAssigned := []\<rparr>" env "a_pendingAssigned a"] assms
    by simp
  with False show ?thesis
    by (simp add: processPendingRebalances_def takePending_def Let_def
        go_bind_app [of "triggerAssign env (a_pendingAssigned a)"] split: option.splits)
qed (simp add: processPendingRebalances_def)

section \<open>No assignment is lost or handed over twice\<close>

text \<open>The pairs the consumer has accepted: those of the assigns it did not refuse.\<close>

fun accepted_by :: "effect \<Rightarrow> (string \<times> int) multiset" where
  "accepted_by (TriggeredRebalance Assign info None) =
     mset (map (\<lambda>i. (ri_TopicName i, ri_Partition i)) info)"
| "accepted_by _ = {#}"

definition accepted_pairs :: "adapter \<Rightarrow> (string \<times> int) multiset" where
  "accepted_pairs a = sum_list (map accepted_by (a_effects a))"

locale assign_queue =
  fixes pend :: "'s \<Rightarrow> 'p multiset"
    and accepted :: "'s \<Rightarrow> 'p multiset"
    and ok :: "'s \<Rightarrow> bool"
    and round_ok :: "'e \<Rightarrow> bool"
    and arrivals :: "'e \<Rightarrow> 'p multiset"
    and round :: "'e \<Rightarrow> 's \<Rightarrow> 's"
  assumes ok_round: "ok s \<Longrightarrow> round_ok e \<Longrightarrow> ok (round e s)"
    and conserved: "ok s \<Longrightarrow> round_ok e \<Longrightarrow>
      accepted (round e s) + pend (round e s) = accepted s + pend s + arrivals e"
begin

lemma rounds_conserved:
  "ok s \<Longrightarrow> \<forall>e \<in> set es. round_ok e \<Longrightarrow>
   accepted (fold round es s) + pend (fold round es s) =
     accepted s + pend s + sum_list (map arrivals es)"
  by (induction es arbitrary: s) (simp_all add: ok_round conserved add.assoc)

lemma drained_exactly_once:
  "ok s \<Longrightarrow> \<forall>e \<in> set es. round_ok e \<Longrightarrow> pend (fold round es s) = {#} \<Longrightarrow>
   accepted (fold round es s) = accepted s + pend s + sum_list (map arrivals es)"
  using rounds_conserved by fastforce

end

definition rebalance_round :: "rebalance_env \<times> assignment list \<Rightarrow> adapter \<Rightarrow> adapter" where
  "rebalance_round r a = snd (processPendingRebalances (fst r) (snd r) a)"

lemma accepted_lookup [simp]: "sum_list (map accepted_by (lookup_effects env m a)) = {#}"
  by (simp add: lookup_effects_def split: sum.splits)

lemma accepted_assign:
  assumes "range_order (re_infoOrder env)"
  shows "sum_list (map accepted_by (assign_effects env m a)) =
           (if assign_error env m a = None then pairs_of m else {#})"
  by (cases "re_TriggerRebalance env Assign (assign_infos env m a)")
    (simp_all add: assign_effects_def assign_error_def assign_infos_def infos_pairs
      pairs_range [OF assms] flip: mset_map)

lemma accepted_frame [simp]:
  "accepted_pairs (fold OnAssigned ms a) = accepted_pairs a"
  "accepted_pairs (requeuePending m a) = accepted_pairs a"
  "accepted_pairs (a\<lparr>a_pendingAssigned := m\<rparr>) = accepted_pairs a"
  by (simp_all add: accepted_pairs_def)

lemma pending_cleared [simp]: "pending_pairs (a\<lparr>a_pendingAssigned := []\<rparr>) = {#}"
  by (simp add: pending_pairs_def)

lemma pending_effects [simp]: "pending_pairs (a\<lparr>a_effects := es\<rparr>) = pending_pairs a"
  by (simp add: pending_pairs_def)

lemma round_conserved:
  assumes "wired a" and "range_order (re_infoOrder (fst r))"
  shows "accepted_pairs (rebalance_round r a) + pending_pairs (rebalance_round r a) =
           accepted_pairs a + pending_pairs a + sum_list (map pairs_of (snd r))"
proof (cases "a_pendingAssigned a = []")
  case True
  then show ?thesis
    by (simp add: rebalance_round_def process_wired [OF assms(1)] pending_fold_OnAssigned add.assoc)
next
  case False
  let ?m = "a_pendingAssigned a"
  let ?a1 = "a\<lparr>a_pendingAssigned := [], a_effects := a_effects a @ assign_effects (fst r) ?m a\<rparr>"
  have acc: "accepted_pairs ?a1 = accepted_pairs a +
      (if assign_error (fst r) ?m a = None then pairs_of ?m else {#})"
    by (simp add: accepted_pairs_def accepted_assign [OF assms(2)])
  have pend: "pending_pairs a = pairs_of ?m" "pending_pairs ?a1 = {#}"
    by (simp_all add: pending_pairs_def)
  show ?thesis
    using False acc pend
    by (cases "assign_error (fst r) ?m a")
      (simp_all add: rebalance_round_def process_wired [OF assms(1)] Let_def
        pending_fold_OnAssigned add.commute add.left_commute add.assoc)
qed

lemma round_wired: "wired a \<Longrightarrow> wired (rebalance_round r a)"
  by (simp add: rebalance_round_def process_wired Let_def split: option.splits)

interpretation pending_queue: assign_queue pending_pairs accepted_pairs wired
  "\<lambda>r. range_order (re_infoOrder (fst r))" "\<lambda>r. sum_list (map pairs_of (snd r))" rebalance_round
  by unfold_locales (simp_all add: round_wired round_conserved)

text \<open>
  C4. Through any sequence of polls, whatever the consumer answers to each assign and whatever
  further assignments arrive while it is being asked, every assigned (topic, partition) pair is
  accounted for: accepted by the consumer or still queued, with its multiplicity. In particular,
  once the queue is empty, each pair that was queued or arrived has been accepted exactly once.
\<close>

theorem assigns_neither_lost_nor_repeated:
  assumes "wired a" and "\<forall>r \<in> set rounds. range_order (re_infoOrder (fst r))"
  shows "accepted_pairs (fold rebalance_round rounds a) + pending_pairs (fold rebalance_round rounds a) =
           accepted_pairs a + pending_pairs a + sum_list (map (\<lambda>r. sum_list (map pairs_of (snd r))) rounds) \<and>
         (a_pendingAssigned (fold rebalance_round rounds a) = [] \<longrightarrow>
          accepted_pairs (fold rebalance_round rounds a) =
            accepted_pairs a + pending_pairs a + sum_list (map (\<lambda>r. sum_list (map pairs_of (snd r))) rounds))"
  using pending_queue.rounds_conserved [OF assms] by (auto simp: pending_pairs_def)

text \<open>A wired adapter, and a consumer that refuses or accepts, for concrete instances.\<close>

definition wired_adapter :: adapter where
  "wired_adapter =
     NewCustom\<lparr>a_logger := Some 1, a_ctx := Some 1,
       a_adaptedConsumer := Some \<lparr>c_id = 1, c_EmergencyShutdowner = True, c_Context = 1, c_Logger = Some 1\<rparr>\<rparr>"

definition accepting_env :: rebalance_env where
  "accepting_env =
     \<lparr>re_topicOrder = (\<lambda>m. m), re_infoOrder = rev, re_fetchCommitted = (\<lambda>_. Inr []),
      re_TriggerRebalance = (\<lambda>_ _. None)\<rparr>"

definition refusing_env :: rebalance_env where
  "refusing_env = accepting_env\<lparr>re_TriggerRebalance := (\<lambda>_ _. Some (OtherError 0 ''busy''))\<rparr>"

lemma wired_wired_adapter [simp]: "wired wired_adapter"
  by (simp add: wired_def wired_adapter_def)

lemma sample_env_simps [simp]:
  "re_infoOrder accepting_env = rev" "re_infoOrder refusing_env = rev"
  "re_TriggerRebalance accepting_env t i = None"
  "re_TriggerRebalance refusing_env t i = Some (OtherError 0 ''busy'')"
  by (simp_all add: accepting_env_def refusing_env_def)

lemma accepting_round_drains:
  "wired a \<Longrightarrow> a_pendingAssigned (rebalance_round (accepting_env, []) a) = []"
  by (simp add: rebalance_round_def process_wired Let_def assign_error_def)

theorem assigns_neither_lost_nor_repeated_witness:
  "accepted_pairs (fold rebalance_round
     [(refusing_env, [[(''t'', [1])]]), (accepting_env, [])] (OnAssigned [(''t'', [0])] wired_adapter)) =
   {# (''t'', 0), (''t'', 1) #}"
proof -
  let ?a = "OnAssigned [(''t'', [0])] wired_adapter"
  let ?rs = "[(refusing_env, [[(''t'', [1])]]), (accepting_env, [])]"
  have w: "wired ?a" using OnAssigned_frame(2) [of "[[(''t'', [0])]]" wired_adapter] by simp
  have o: "\<forall>r \<in> set ?rs. range_order (re_infoOrder (fst r))" by simp
  have drained: "a_pendingAssigned (fold rebalance_round ?rs ?a) = []"
    by (simp add: accepting_round_drains round_wired w)
  have "accepted_pairs ?a = {#}" "pending_pairs ?a = {# (''t'', 0) #}"
    by (simp_all add: accepted_pairs_def pending_pairs_def OnAssigned_def wired_adapter_def
        NewCustom_def queue_back_def pairs_of_def)
  then show ?thesis
    using assigns_neither_lost_nor_repeated [OF w o] drained
    by (simp add: pairs_of_def)
qed

section \<open>What the consumer is told\<close>

lemma baseline_known:
  "0 \<le> baseline committed t p \<longleftrightarrow>
     (\<exists>po v. map_of committed t = Some po \<and> map_of po p = Some v \<and> 0 \<le> v \<and> baseline committed t p = v)"
  by (auto simp: baseline_def split: option.splits)

lemma baseline_range: "baseline committed t p = -1 \<or> 0 \<le> baseline committed t p"
  by (auto simp: baseline_def split: option.splits)

lemma infos_set:
  "i \<in> set (rebalance_infos ty off m) \<Longrightarrow>
   ri_RebalanceType i = ty \<and> ri_CommittedOffset i = off (ri_TopicName i) (ri_Partition i)"
  by (auto simp: rebalance_infos_def)

text \<open>
  C15. When assigns are pending, one poll tells the consumer about all of them in a single call:
  every queued (topic, partition) pair, each with the group's committed offset when the lookup is
  enabled, succeeds and reports a non-negative one, and otherwise with -1, never with a zero that
  was not reported. A failed lookup does not stop the assign, and the call's own error comes back
  wrapped, with its cause kept.
\<close>

theorem assign_announces_committed_baseline:
  assumes "wired a" and "a_pendingAssigned a \<noteq> []" and "range_order (re_infoOrder env)"
  shows "\<exists>pre info err.
           a_effects (snd (processPendingRebalances env queued a)) =
             a_effects a @ pre @ [TriggeredRebalance Assign info err] \<and>
           (\<forall>e \<in> set pre. accepted_by e = {#}) \<and>
           mset (map (\<lambda>i. (ri_TopicName i, ri_Partition i)) info) = pending_pairs a \<and>
           fst (processPendingRebalances env queued a) =
             Ok (map_option (WrapError ''failed to trigger rebalance (assign): '') err) \<and>
           (\<forall>i \<in> set info.
              ri_RebalanceType i = Assign \<and>
              ri_CommittedOffset i = baseline (offsets_seen env (a_pendingAssigned a) a) (ri_TopicName i) (ri_Partition i) \<and>
              (ri_CommittedOffset i = -1 \<or>
               assignmentOffsetLookup (a_opts a) \<and>
               (\<exists>topics committed po. re_fetchCommitted env topics = Inr committed \<and>
                  map_of committed (ri_TopicName i) = Some po \<and>
                  map_of po (ri_Partition i) = Some (ri_CommittedOffset i) \<and> 0 \<le> ri_CommittedOffset i)))"
proof -
  let ?m = "a_pendingAssigned a"
  let ?info = "assign_infos env ?m a"
  let ?err = "re_TriggerRebalance env Assign ?info"
  have p: "mset (map (\<lambda>i. (ri_TopicName i, ri_Partition i)) ?info) = pending_pairs a"
    unfolding assign_infos_def infos_pairs pending_pairs_def by (rule pairs_range [OF assms(3)])
  have e: "a_effects (snd (processPendingRebalances env queued a)) =
      a_effects a @ (lookup_effects env ?m a @ [Logged SevInfo (MsgAssigned ?m)]) @
      [TriggeredRebalance Assign ?info ?err]"
    using assms(2) by (simp add: process_wired [OF assms(1)] Let_def assign_effects_def split: option.splits)
  have r: "fst (processPendingRebalances env queued a) =
      Ok (map_option (WrapError ''failed to trigger rebalance (assign): '') ?err)"
    using assms(2) by (simp add: process_wired [OF assms(1)] Let_def assign_error_def split: option.splits)
  have q: "\<forall>x \<in> set (lookup_effects env ?m a @ [Logged SevInfo (MsgAssigned ?m)]). accepted_by x = {#}"
    by (auto simp: lookup_effects_def split: sum.splits)
  have seen: "offsets_seen env ?m a = [] \<or> assignmentOffsetLookup (a_opts a) \<and>
      re_fetchCommitted env (gm_keys (re_topicOrder env ?m)) = Inr (offsets_seen env ?m a)"
    by (auto simp: offsets_seen_def split: sum.splits)
  have i: "ri_RebalanceType i = Assign \<and>
      ri_CommittedOffset i = baseline (offsets_seen env ?m a) (ri_TopicName i) (ri_Partition i) \<and>
      (ri_CommittedOffset i = -1 \<or> assignmentOffsetLookup (a_opts a) \<and>
       (\<exists>topics committed po. re_fetchCommitted env topics = Inr committed \<and>
          map_of committed (ri_TopicName i) = Some po \<and>
          map_of po (ri_Partition i) = Some (ri_CommittedOffset i) \<and> 0 \<le> ri_CommittedOffset i))"
    if "i \<in> set ?info" for i
    using infos_set [OF that [unfolded assign_infos_def]] seen
      baseline_range [of "offsets_seen env ?m a" "ri_TopicName i" "ri_Partition i"]
      baseline_known [of "offsets_seen env ?m a" "ri_TopicName i" "ri_Partition i"]
    by (auto simp: baseline_def)
  show ?thesis
    using e r p q i by blast
qed

definition offset_env :: rebalance_env where
  "offset_env = accepting_env\<lparr>re_fetchCommitted := (\<lambda>_. Inr [(''t'', [(0, 42), (1, -1)])])\<rparr>"

theorem assign_announces_committed_baseline_witness:
  "\<exists>pre info err.
     a_effects (snd (processPendingRebalances offset_env []
       (wired_adapter\<lparr>a_pendingAssigned := [(''t'', [0, 1])], a_fetchCommittedFn := Some 1\<rparr>))) =
       pre @ [TriggeredRebalance Assign info err] \<and>
     mset (map (\<lambda>i. (ri_TopicName i, ri_Partition i)) info) = {# (''t'', 0), (''t'', 1) #} \<and>
     (\<forall>i \<in> set info. ri_CommittedOffset i = (if ri_Partition i = 0 then 42 else -1))"
proof -
  let ?a = "wired_adapter\<lparr>a_pendingAssigned := [(''t'', [0, 1])], a_fetchCommittedFn := Some 1\<rparr>"
  have h: "wired ?a" "a_pendingAssigned ?a \<noteq> []" "range_order (re_infoOrder offset_env)"
    by (simp_all add: wired_def wired_adapter_def offset_env_def)
  have seen: "offsets_seen offset_env [(''t'', [0, 1])] ?a = [(''t'', [(0, 42), (1, -1)])]"
    by (simp add: offsets_seen_def offset_env_def wired_adapter_def NewCustom_def defaultAdapterOptions_def)
  have pend: "pending_pairs ?a = {# (''t'', 0), (''t'', 1) #}" "a_effects ?a = []"
    by (simp_all add: pending_pairs_def pairs_of_def wired_adapter_def NewCustom_def)
  from assign_announces_committed_baseline [OF h, of "[]"] obtain pre info err where
    e: "a_effects (snd (processPendingRebalances offset_env [] ?a)) = pre @ [TriggeredRebalance Assign info err]"
      "mset (map (\<lambda>i. (ri_TopicName i, ri_Partition i)) info) = {# (''t'', 0), (''t'', 1) #}"
    and o: "\<forall>i \<in> set info. ri_CommittedOffset i =
      baseline [(''t'', [(0, 42), (1, -1)])] (ri_TopicName i) (ri_Partition i)"
    unfolding pend using seen by (auto simp: wired_adapter_def)
  have "set (map (\<lambda>i. (ri_TopicName i, ri_Partition i)) info) = {(''t'', 0), (''t'', 1)}"
    using arg_cong [OF e(2), where f = set_mset] by simp
  then have "\<forall>i \<in> set info. ri_CommittedOffset i = (if ri_Partition i = 0 then 42 else -1)"
    using o by (auto simp: baseline_def)
  with e show ?thesis by blast
qed

text \<open>\<open>OnRevoked\<close> on a wired adapter.\<close>

definition revoke_infos :: "rebalance_env \<Rightarrow> assignment \<Rightarrow> RebalanceInfo list" where
  "revoke_infos env m = rebalance_infos Revoke (\<lambda>_ _. -1) (re_infoOrder env m)"

definition revoke_effects :: "rebalance_env \<Rightarrow> assignment \<Rightarrow> effect list" where
  "revoke_effects env m =
     [Logged SevInfo (MsgRevoked m),
      TriggeredRebalance Revoke (revoke_infos env m)
        (re_TriggerRebalance env Revoke (revoke_infos env m))] @
     (case re_TriggerRebalance env Revoke (revoke_infos env m) of
        None \<Rightarrow> []
      | Some e \<Rightarrow> [Logged SevError (MsgRevokeFailed
                    (WrapError ''failed to trigger rebalance (revoke): '' e))])"

lemma triggerRevoke_wired:
  assumes "wired a"
  shows "triggerRevoke env m a =
    (let err = re_TriggerRebalance env Revoke (revoke_infos env m)
     in (Ok (map_option (WrapError ''failed to trigger rebalance (revoke): '') err),
         a\<lparr>a_effects := a_effects a @
             [Logged SevInfo (MsgRevoked m), TriggeredRebalance Revoke (revoke_infos env m) err]\<rparr>))"
proof -
  have "a_adaptedConsumer a \<noteq> None" "a_logger a \<noteq> None" using assms by (simp_all add: wired_def)
  then show ?thesis
    by (simp add: triggerRevoke_def Let_def go_bind_logf revoke_infos_def del: not_None_eq)
qed

lemma OnRevoked_wired:
  assumes "wired a" and "m \<noteq> []"
  shows "OnRevoked env m a = (Ok (), a\<lparr>a_effects := a_effects a @ revoke_effects env m\<rparr>)"
proof -
  have "a_logger a \<noteq> None" using assms by (simp add: wired_def)
  with assms(2) show ?thesis
    by (simp add: OnRevoked_def go_bind_app triggerRevoke_wired [OF assms(1)] Let_def
        logf_app revoke_effects_def del: not_None_eq split: option.splits)
qed

lemma keeps_OnRevoked [intro]: "keeps only_effects (OnRevoked env m)"
proof -
  have "keeps only_effects (triggerRevoke env m)"
    unfolding keeps_def triggerRevoke_def
    by (auto simp: Let_def go_bind_logf intro: only_effectsI)
  then show ?thesis
    unfolding OnRevoked_def by (auto intro!: keeps_bind keeps_return split: option.split)
qed

text \<open>
  C14. A revocation is handed to the consumer before the callback returns: when it returns, the
  consumer has been told once about every revoked (topic, partition) pair, with -1 as the offset,
  and nothing was queued for later; the consumer's error is logged and not propagated. Lost
  partitions are treated the same way, an empty revocation does nothing, and neither callback
  touches any other field of the adapter.
\<close>

theorem revoke_is_synchronous:
  assumes "wired a" and "range_order (re_infoOrder env)"
  shows "OnLost env m a = OnRevoked env m a \<and>
         OnRevoked env [] a = (Ok (), a) \<and>
         (m \<noteq> [] \<longrightarrow>
           (\<exists>info err log.
             OnRevoked env m a =
               (Ok (), a\<lparr>a_effects := a_effects a @
                  [Logged SevInfo (MsgRevoked m), TriggeredRebalance Revoke info err] @ log\<rparr>) \<and>
             (err = None \<longleftrightarrow> log = []) \<and>
             mset (map (\<lambda>i. (ri_TopicName i, ri_Partition i)) info) = pairs_of m \<and>
             (\<forall>i \<in> set info. ri_RebalanceType i = Revoke \<and> ri_CommittedOffset i = -1)))"
proof -
  have "mset (map (\<lambda>i. (ri_TopicName i, ri_Partition i)) (revoke_infos env m)) = pairs_of m"
    unfolding revoke_infos_def infos_pairs by (rule pairs_range [OF assms(2)])
  moreover have "\<forall>i \<in> set (revoke_infos env m). ri_RebalanceType i = Revoke \<and> ri_CommittedOffset i = -1"
    using infos_set unfolding revoke_infos_def by blast
  moreover have "OnRevoked env m a = (Ok (), a\<lparr>a_effects := a_effects a @ revoke_effects env m\<rparr>)"
    if "m \<noteq> []" by (rule OnRevoked_wired [OF assms(1) that])
  ultimately show ?thesis
    by (auto simp: OnLost_def OnRevoked_def revoke_effects_def split: option.splits)
qed

theorem revoke_is_synchronous_witness:
  "\<exists>info log.
     OnRevoked refusing_env [(''t'', [3, 4])] wired_adapter =
       (Ok (), wired_adapter\<lparr>a_effects :=
          [Logged SevInfo (MsgRevoked [(''t'', [3, 4])]),
           TriggeredRebalance Revoke info (Some (OtherError 0 ''busy''))] @ log\<rparr>) \<and>
     log \<noteq> [] \<and> mset (map ri_Partition info) = {# 3, 4 #}"
proof -
  have h: "wired wired_adapter" "range_order (re_infoOrder refusing_env)" by simp_all
  have m: "[(''t'', [3, 4])] \<noteq> []" by simp
  obtain info err log where o: "OnRevoked refusing_env [(''t'', [3, 4])] wired_adapter =
      (Ok (), wired_adapter\<lparr>a_effects := a_effects wired_adapter @
        [Logged SevInfo (MsgRevoked [(''t'', [3, 4])]), TriggeredRebalance Revoke info err] @ log\<rparr>)"
    and l: "err = None \<longleftrightarrow> log = []"
    and p: "mset (map (\<lambda>i. (ri_TopicName i, ri_Partition i)) info) = pairs_of [(''t'', [3, 4])]"
    using revoke_is_synchronous [OF h, of "[(''t'', [3, 4])]"] m by blast
  have "TriggeredRebalance Revoke info err \<in> set (a_effects (snd (OnRevoked refusing_env [(''t'', [3, 4])] wired_adapter)))"
    unfolding o by simp
  then have err: "err = Some (OtherError 0 ''busy'')"
    unfolding OnRevoked_wired [OF h(1) m] by (auto simp: revoke_effects_def wired_adapter_def NewCustom_def)
  have "mset (map ri_Partition info) = image_mset snd (mset (map (\<lambda>i. (ri_TopicName i, ri_Partition i)) info))"
    by (simp add: image_mset.compositionality o_def)
  also have "\<dots> = {# 3, 4 #}" unfolding p by (simp add: pairs_of_def)
  finally show ?thesis
    using o l err by (auto simp: wired_adapter_def NewCustom_def)
qed

text \<open>
  C32. A revocation does not withdraw a queued assign. When partitions are assigned and revoked
  again before a poll has handed the assign over, the consumer is told of the revocation first
  and of the assignment afterwards, and accepts partitions the member no longer owns.
\<close>

theorem revoked_before_assign_is_announced:
  assumes "wired a" and "a_pendingAssigned a = []" and "m \<noteq> []" and "range_order (re_infoOrder env)"
    and "\<And>ty info. re_TriggerRebalance env ty info = None"
  shows "\<exists>pre mid rinfo ainfo.
           a_effects (rebalance_round (env, []) (snd (OnRevoked env m (OnAssigned m a)))) =
             a_effects a @ pre @ [TriggeredRebalance Revoke rinfo None] @ mid @
               [TriggeredRebalance Assign ainfo None] \<and>
           mset (map (\<lambda>i. (ri_TopicName i, ri_Partition i)) rinfo) = pairs_of m \<and>
           mset (map (\<lambda>i. (ri_TopicName i, ri_Partition i)) ainfo) = pairs_of m"
proof -
  let ?a1 = "OnAssigned m a"
  let ?a2 = "?a1\<lparr>a_effects := a_effects ?a1 @ revoke_effects env m\<rparr>"
  let ?q = "a_pendingAssigned ?a1"
  have w1: "wired ?a1" using OnAssigned_frame(2) [of "[m]" a] assms(1) by simp
  have rev: "snd (OnRevoked env m ?a1) = ?a2" by (simp add: OnRevoked_wired [OF w1 assms(3)])
  have q: "pairs_of ?q = pairs_of m"
    using pending_OnAssigned [of m a] assms(2) by (simp add: pending_pairs_def)
  have ne: "?q \<noteq> []"
  proof -
    have "queue_back e y \<noteq> []" for e y
      by (simp add: queue_back_def update_nonempty)
    then have "x \<noteq> [] \<Longrightarrow> fold queue_back x y \<noteq> []" for x y
      by (induction x arbitrary: y rule: rev_induct) simp_all
    with assms(3) show ?thesis by (simp add: OnAssigned_def)
  qed
  have "a_effects (rebalance_round (env, []) ?a2) =
      a_effects a @ revoke_effects env m @ assign_effects env ?q ?a2"
    using ne assms(5) w1 OnAssigned_frame(1) [of "[m]" a]
    by (simp add: rebalance_round_def process_wired Let_def assign_error_def)
  moreover have "mset (map (\<lambda>i. (ri_TopicName i, ri_Partition i)) (revoke_infos env m)) = pairs_of m"
    unfolding revoke_infos_def infos_pairs by (rule pairs_range [OF assms(4)])
  moreover have "mset (map (\<lambda>i. (ri_TopicName i, ri_Partition i)) (assign_infos env ?q ?a2)) = pairs_of m"
    unfolding assign_infos_def infos_pairs using pairs_range [OF assms(4), of ?q] q by simp
  ultimately show ?thesis
    unfolding rev
    by (intro exI [of _ "[Logged SevInfo (MsgRevoked m)]"]
        exI [of _ "lookup_effects env ?q ?a2 @ [Logged SevInfo (MsgAssigned ?q)]"]
        exI [of _ "revoke_infos env m"] exI [of _ "assign_infos env ?q ?a2"])
      (simp add: revoke_effects_def assign_effects_def assms(5))
qed

theorem revoked_before_assign_is_announced_witness:
  "\<exists>pre mid rinfo ainfo.
     a_effects (rebalance_round (accepting_env, [])
       (snd (OnRevoked accepting_env [(''t'', [7])] (OnAssigned [(''t'', [7])] wired_adapter)))) =
       pre @ [TriggeredRebalance Revoke rinfo None] @ mid @ [TriggeredRebalance Assign ainfo None] \<and>
     mset (map (\<lambda>i. (ri_TopicName i, ri_Partition i)) ainfo) = {# (''t'', 7) #}"
proof -
  have h: "wired wired_adapter" "a_pendingAssigned wired_adapter = []" "[(''t'', [7])] \<noteq> []"
    "range_order (re_infoOrder accepting_env)" "\<And>ty info. re_TriggerRebalance accepting_env ty info = None"
    by (simp_all add: wired_adapter_def NewCustom_def wired_def)
  from revoked_before_assign_is_announced [OF h] show ?thesis
    by (simp add: pairs_of_def wired_adapter_def NewCustom_def) blast
qed

end
