(* ===== verification/Poll_Errors.thy ===== *)
theory Poll_Errors
  imports Rebalance
begin

text \<open>
  Poll-error handling and the fetch of one record (\<open>franzadapter/broker_port.go\<close>:
  \<open>errIdentity\<close>, \<open>handlePollErrors\<close>, \<open>bail\<close>, \<open>fetchNext\<close>). The result of the client's
  \<open>PollRecords\<close> and the current time are arguments. The three maps keyed by partition are error
  streaks; the lemmas on \<open>pollErrorLoop\<close> describe, for every key, what one poll does to its streak,
  and the properties lift that to sequences of polls.
\<close>

section \<open>Operations\<close>

definition errIdentity :: "go_error \<Rightarrow> string" where
  "errIdentity err =
     (case errors_As_kerr err of
        Some code \<Rightarrow> ''kafka:'' @ Itoa code
      | None \<Rightarrow> error_string err)"

definition partition_key :: "string \<Rightarrow> int \<Rightarrow> string" where
  "partition_key topic part = topic @ ''-'' @ Itoa part"

abbreviation record_key :: "kgo_record \<Rightarrow> string" where
  "record_key r \<equiv> partition_key (rTopic r) (rPartition r)"

text \<open>
  \<open>bail\<close>: the body of \<open>bailOnce.Do\<close> runs at most once. \<open>SpawnedUnsubscribe\<close> is the goroutine that
  calls \<open>Unsubscribe\<close>.
\<close>

definition bail :: "go_error \<Rightarrow> (adapter, unit) go" where
  "bail reason =
     (\<lambda>a. if a_bailOnce a then (Ok (), a)
          else go_bind (go_modify (\<lambda>a. a\<lparr>a_bailOnce := True\<rparr>)) (\<lambda>_.
               go_bind (logf SevError (MsgStoppingConsumer reason)) (\<lambda>_.
               (\<lambda>a. case a_adaptedConsumer a of
                  None \<Rightarrow> logf SevError MsgCannotEscalate a
                | Some c \<Rightarrow>
                    if \<not> c_EmergencyShutdowner c then logf SevError MsgCannotEscalate a
                    else go_bind (perform (EmergencyShutdown reason)) (\<lambda>_.
                         perform SpawnedUnsubscribe) a))) a)"

definition bail_reason :: "string \<Rightarrow> int \<Rightarrow> duration \<Rightarrow> go_error \<Rightarrow> go_error" where
  "bail_reason topic part bailAfter err =
     WrapError (''partition '' @ topic @ ''['' @ Itoa part @ ''] failing to fetch for '' @
                duration_String bailAfter @ '': '') err"

text \<open>
  The callback of \<open>fetches.EachError\<close>, with the variables it shares with its caller (whether a real
  error was seen, and the reason to bail) as argument and result.
\<close>

definition onPollError ::
  "instant \<Rightarrow> duration \<Rightarrow> string list \<Rightarrow> string \<times> int \<times> go_error \<Rightarrow> bool \<times> go_error option \<Rightarrow>
   (adapter, bool \<times> go_error option) go" where
  "onPollError now logEvery recovered entry acc =
     (case entry of (topic, part, err) \<Rightarrow>
        (\<lambda>a. if errors_Is err DeadlineExceeded then (Ok acc, a)
             else if partition_key topic part \<in> set recovered then (Ok acc, a)
             else
               (let key = partition_key topic part;
                    since = (case map_of (a_pollErrSince a) key of None \<Rightarrow> now | Some t \<Rightarrow> t);
                    a1 = (case map_of (a_pollErrSince a) key of
                            None \<Rightarrow> a\<lparr>a_pollErrSince := gm_put key now (a_pollErrSince a)\<rparr>
                          | Some _ \<Rightarrow> a);
                    streak = time_Sub now since;
                    ident = errIdentity err;
                    changed = (ident \<noteq> (case map_of (a_pollErrLastID a) key of None \<Rightarrow> [] | Some i \<Rightarrow> i));
                    due = (case map_of (a_pollErrLogged a) key of
                             None \<Rightarrow> True
                           | Some prev \<Rightarrow> changed \<or> time_Sub now prev \<ge> logEvery)
                in go_bind
                     (go_when due
                       (go_bind (logf SevError
                           (MsgPollError topic part (duration_Truncate streak Second) err)) (\<lambda>_.
                        go_modify (\<lambda>a. a\<lparr>a_pollErrLogged := gm_put key now (a_pollErrLogged a),
                                        a_pollErrLastID := gm_put key ident (a_pollErrLastID a)\<rparr>))))
                     (\<lambda>_. go_return
                       (True,
                        if pollErrorBailAfter (a_opts a) > 0 \<and> streak \<ge> pollErrorBailAfter (a_opts a)
                        then Some (bail_reason topic part (pollErrorBailAfter (a_opts a)) err)
                        else snd acc)) a1)))"

fun pollErrorLoop ::
  "instant \<Rightarrow> duration \<Rightarrow> string list \<Rightarrow> (string \<times> int \<times> go_error) list \<Rightarrow> bool \<times> go_error option \<Rightarrow>
   (adapter, bool \<times> go_error option) go" where
  "pollErrorLoop now logEvery recovered [] acc = go_return acc"
| "pollErrorLoop now logEvery recovered (e # es) acc =
     go_bind (onPollError now logEvery recovered e acc) (\<lambda>acc'.
     pollErrorLoop now logEvery recovered es acc')"

text \<open>Deleting the recovered keys from the three maps.\<close>

definition clearStreaks :: "string list \<Rightarrow> adapter \<Rightarrow> adapter" where
  "clearStreaks recovered a =
     a\<lparr>a_pollErrSince := fold gm_delete recovered (a_pollErrSince a),
       a_pollErrLogged := fold gm_delete recovered (a_pollErrLogged a),
       a_pollErrLastID := fold gm_delete recovered (a_pollErrLastID a)\<rparr>"

definition recoveredKeys :: "fetches \<Rightarrow> adapter \<Rightarrow> string list" where
  "recoveredKeys f a =
     (if fetches_Err f \<noteq> None \<or> a_pollErrSince a \<noteq> [] \<or> a_pollErrLogged a \<noteq> [] \<or> a_pollErrLastID a \<noteq> []
      then remdups (map record_key (EachRecord f)) else [])"

definition handlePollErrors :: "instant \<Rightarrow> fetches \<Rightarrow> (adapter, bool) go" where
  "handlePollErrors now f =
     (\<lambda>a. let logEvery = (if pollErrorLogInterval (a_opts a) \<le> 0 then defaultPollErrorLogInterval
                          else pollErrorLogInterval (a_opts a));
              recovered = recoveredKeys f a
          in go_bind (go_modify (clearStreaks recovered)) (\<lambda>_.
             go_bind (pollErrorLoop now logEvery recovered (EachError f) (False, None)) (\<lambda>acc.
             go_bind (case snd acc of None \<Rightarrow> go_return () | Some reason \<Rightarrow> bail reason) (\<lambda>_.
             go_return (fst acc)))) a)"

text \<open>
  \<open>fetchNext\<close> on the result of \<open>PollRecords\<close>. The error text quotes the topics; for the characters
  Kafka allows in a topic name, quoting adds only the quotation marks.
\<close>

definition foreignTopicError :: "string \<Rightarrow> string \<Rightarrow> go_error" where
  "foreignTopicError got want =
     OtherError 0 (''record from topic '' @ [char_of (34 :: nat)] @ got @ [char_of (34 :: nat)] @ '' on a consumer configured for '' @
       [char_of (34 :: nat)] @ want @ [char_of (34 :: nat)] @ '' - one consumer serves one topic; check the client's topic subscription'')"

definition fetchNext :: "instant \<Rightarrow> fetches \<Rightarrow> (adapter, kgo_record option \<times> bool) go" where
  "fetchNext now f =
     (\<lambda>a. if IsClientClosed f \<or> a_fetchCancelled a then (Ok (None, True), a)
          else
            (let record = (case EachRecord f of [] \<Rightarrow> None | r # _ \<Rightarrow> Some r);
                 foreign = (case record of
                              None \<Rightarrow> None
                            | Some r \<Rightarrow> if a_topicName a \<noteq> [] \<and> rTopic r \<noteq> a_topicName a
                                        then Some (foreignTopicError (rTopic r) (a_topicName a)) else None)
             in (case foreign of
                   Some err \<Rightarrow>
                     go_bind (logf SevError (MsgForeignTopic err)) (\<lambda>_.
                     go_bind (bail err) (\<lambda>_. go_return (None, True)))
                 | None \<Rightarrow>
                     go_bind (handlePollErrors now f) (\<lambda>sawErr.
                     go_bind (go_when (record = None \<and> sawErr \<and> pollErrorBackoff (a_opts a) > 0)
                                (perform (BackedOff (pollErrorBackoff (a_opts a))))) (\<lambda>_.
                     go_return (record, False)))) a))"

section \<open>Bailing out\<close>

interpretation bail_once: once_guard a_bailOnce "\<lambda>reason a. snd (bail reason a)"
  by unfold_locales (auto simp: bail_def go_bind_logf logf_app split: option.splits)

text \<open>The contract \<open>CreateConsumer\<close> enforces: the consumer can be stopped in an emergency.\<close>

definition escalates :: "adapter \<Rightarrow> bool" where
  "escalates a = (case a_adaptedConsumer a of None \<Rightarrow> False | Some c \<Rightarrow> c_EmergencyShutdowner c)"

definition bailed :: "go_error \<Rightarrow> adapter \<Rightarrow> adapter" where
  "bailed reason a =
     (if a_bailOnce a then a
      else a\<lparr>a_bailOnce := True,
             a_effects := a_effects a @ [Logged SevError (MsgStoppingConsumer reason),
                                         EmergencyShutdown reason, SpawnedUnsubscribe]\<rparr>)"

lemma bail_wired:
  "a_logger a \<noteq> None \<Longrightarrow> escalates a \<Longrightarrow> bail reason a = (Ok (), bailed reason a)"
  by (auto simp: bail_def go_bind_logf escalates_def bailed_def split: option.splits)

section \<open>One visited error\<close>

definition since_or :: "instant \<Rightarrow> adapter \<Rightarrow> string \<Rightarrow> instant" where
  "since_or now a key = (case map_of (a_pollErrSince a) key of None \<Rightarrow> now | Some t \<Rightarrow> t)"

text \<open>When an error is logged: the first of its streak, a changed one, or after the interval.\<close>

definition log_due :: "instant \<Rightarrow> duration \<Rightarrow> string \<Rightarrow> go_error \<Rightarrow> adapter \<Rightarrow> bool" where
  "log_due now logEvery key err a =
     (case map_of (a_pollErrLogged a) key of
        None \<Rightarrow> True
      | Some prev \<Rightarrow>
          errIdentity err \<noteq> (case map_of (a_pollErrLastID a) key of None \<Rightarrow> [] | Some i \<Rightarrow> i) \<or>
          time_Sub now prev \<ge> logEvery)"

definition noteError :: "instant \<Rightarrow> duration \<Rightarrow> string \<times> int \<times> go_error \<Rightarrow> adapter \<Rightarrow> adapter" where
  "noteError now logEvery entry a =
     (case entry of (topic, part, err) \<Rightarrow>
        (let key = partition_key topic part;
             a1 = (if map_of (a_pollErrSince a) key = None
                   then a\<lparr>a_pollErrSince := gm_put key now (a_pollErrSince a)\<rparr> else a)
         in if log_due now logEvery key err a
            then a1\<lparr>a_effects := a_effects a @ [Logged SevError (MsgPollError topic part
                       (duration_Truncate (time_Sub now (since_or now a key)) Second) err)],
                    a_pollErrLogged := gm_put key now (a_pollErrLogged a),
                    a_pollErrLastID := gm_put key (errIdentity err) (a_pollErrLastID a)\<rparr>
            else a1))"

definition real_error :: "string list \<Rightarrow> string \<times> int \<times> go_error \<Rightarrow> bool" where
  "real_error recovered entry =
     (case entry of (topic, part, err) \<Rightarrow>
        \<not> errors_Is err DeadlineExceeded \<and> partition_key topic part \<notin> set recovered)"

definition entry_key :: "string \<times> int \<times> go_error \<Rightarrow> string" where
  "entry_key entry = (case entry of (topic, part, err) \<Rightarrow> partition_key topic part)"

text \<open>An entry whose streak has lasted long enough, and the reason it gives.\<close>

definition overdue :: "instant \<Rightarrow> adapter \<Rightarrow> string \<times> int \<times> go_error \<Rightarrow> bool" where
  "overdue now a entry =
     (pollErrorBailAfter (a_opts a) > 0 \<and>
      time_Sub now (since_or now a (entry_key entry)) \<ge> pollErrorBailAfter (a_opts a))"

definition entry_reason :: "adapter \<Rightarrow> string \<times> int \<times> go_error \<Rightarrow> go_error" where
  "entry_reason a entry =
     (case entry of (topic, part, err) \<Rightarrow> bail_reason topic part (pollErrorBailAfter (a_opts a)) err)"

definition next_bail :: "instant \<Rightarrow> adapter \<Rightarrow> string \<times> int \<times> go_error \<Rightarrow> go_error option \<Rightarrow> go_error option" where
  "next_bail now a entry b = (if overdue now a entry then Some (entry_reason a entry) else b)"

lemma onPollError_wired:
  assumes "a_logger a \<noteq> None"
  shows "onPollError now logEvery recovered entry acc a =
    (if real_error recovered entry
     then (Ok (True, next_bail now a entry (snd acc)), noteError now logEvery entry a)
     else (Ok acc, a))"
proof (cases entry)
  case (fields topic part err)
  show ?thesis
    using assms unfolding fields
    by (cases "map_of (a_pollErrSince a) (partition_key topic part)";
        cases "map_of (a_pollErrLogged a) (partition_key topic part)")
      (simp_all add: onPollError_def real_error_def next_bail_def overdue_def entry_reason_def
        entry_key_def noteError_def log_due_def since_or_def Let_def go_bind_app
        [of "go_when b m" for b m] go_when_app go_bind_logf del: not_None_eq, auto)
qed

lemma noteError_since:
  "map_of (a_pollErrSince (noteError now le entry a)) k =
     (if k = entry_key entry then Some (since_or now a k) else map_of (a_pollErrSince a) k)"
  by (cases entry)
    (auto simp: noteError_def entry_key_def since_or_def Let_def gm_put_get split: option.splits)

lemma noteError_since_or [simp]: "since_or now (noteError now le entry a) k = since_or now a k"
  by (simp add: since_or_def noteError_since split: option.splits)

text \<open>What handling poll errors never touches.\<close>

definition streak_frame :: "adapter \<Rightarrow> adapter \<Rightarrow> bool" where
  "streak_frame a b \<longleftrightarrow>
     (\<exists>s l i es. b = a\<lparr>a_pollErrSince := s, a_pollErrLogged := l, a_pollErrLastID := i,
                       a_effects := a_effects a @ es\<rparr> \<and>
        (\<forall>e \<in> set es. \<exists>t p d err. e = Logged SevError (MsgPollError t p d err)))"

lemma streak_frameI:
  "b = a\<lparr>a_pollErrSince := s, a_pollErrLogged := l, a_pollErrLastID := i,
         a_effects := a_effects a @ es\<rparr> \<Longrightarrow>
   (\<And>e. e \<in> set es \<Longrightarrow> \<exists>t p d err. e = Logged SevError (MsgPollError t p d err)) \<Longrightarrow> streak_frame a b"
  unfolding streak_frame_def by blast

lemma streak_frame_refl [simp]: "streak_frame a a"
  by (rule streak_frameI [where es = "[]" and s = "a_pollErrSince a" and l = "a_pollErrLogged a"
        and i = "a_pollErrLastID a"]) simp_all

lemma streak_frame_trans: "streak_frame a b \<Longrightarrow> streak_frame b c \<Longrightarrow> streak_frame a c"
  unfolding streak_frame_def by fastforce

lemma streak_frame_noteError: "streak_frame a (noteError now le entry a)"
proof (cases entry)
  case (fields topic part err)
  let ?k = "partition_key topic part"
  let ?s = "if map_of (a_pollErrSince a) ?k = None then gm_put ?k now (a_pollErrSince a) else a_pollErrSince a"
  let ?msg = "Logged SevError (MsgPollError topic part
    (duration_Truncate (time_Sub now (since_or now a ?k)) Second) err)"
  show ?thesis
  proof (cases "log_due now le ?k err a")
    case True
    then show ?thesis
      by (intro streak_frameI [where s = ?s and es = "[?msg]"
            and l = "gm_put ?k now (a_pollErrLogged a)"
            and i = "gm_put ?k (errIdentity err) (a_pollErrLastID a)"])
        (auto simp: fields noteError_def Let_def)
  next
    case False
    then show ?thesis
      by (intro streak_frameI [where s = ?s and es = "[]" and l = "a_pollErrLogged a"
            and i = "a_pollErrLastID a"]) (auto simp: fields noteError_def Let_def)
  qed
qed

lemma streak_frame_clear: "streak_frame a (clearStreaks ks a)"
  by (rule streak_frameI [where es = "[]"]) (simp_all add: clearStreaks_def)

lemma streak_frameD:
  assumes "streak_frame a b"
  shows "a_logger b = a_logger a" "a_opts b = a_opts a" "a_bailOnce b = a_bailOnce a"
    "a_adaptedConsumer b = a_adaptedConsumer a" "a_topicName b = a_topicName a" "wired b = wired a"
    "escalates b = escalates a"
  using assms by (auto simp: streak_frame_def wired_def escalates_def)

section \<open>The loop over the errors\<close>

lemma overdue_noteError [simp]:
  "next_bail now (noteError now le e a) = next_bail now a"
proof -
  have "a_opts (noteError now le e a) = a_opts a"
    by (rule streak_frameD(2) [OF streak_frame_noteError])
  then show ?thesis
    by (intro ext) (simp add: next_bail_def overdue_def entry_reason_def)
qed

lemma pollErrorLoop_wired:
  assumes "a_logger a \<noteq> None"
  shows "pollErrorLoop now le recovered es acc a =
    (Ok (fst acc \<or> (\<exists>e \<in> set es. real_error recovered e),
         fold (next_bail now a) (filter (real_error recovered) es) (snd acc)),
     fold (noteError now le) (filter (real_error recovered) es) a)"
  using assms
proof (induction es arbitrary: acc a)
  case (Cons e es)
  have "a_logger (noteError now le e a) \<noteq> None"
    using Cons.prems streak_frameD(1) [OF streak_frame_noteError [of a now le e]] by simp
  note IH = Cons.IH [OF this] Cons.IH [OF Cons.prems]
  show ?case
    by (simp add: go_bind_app onPollError_wired [OF Cons.prems] IH)
qed simp

lemma fold_noteError_frame: "streak_frame a (fold (noteError now le) es a)"
  by (induction es arbitrary: a) (auto intro: streak_frame_trans streak_frame_noteError)

lemma fold_noteError_since:
  "map_of (a_pollErrSince (fold (noteError now le) es a)) k =
     (if k \<in> entry_key ` set es then Some (since_or now a k) else map_of (a_pollErrSince a) k)"
  by (induction es arbitrary: a) (auto simp: noteError_since)

lemma fold_next_bail:
  "fold (next_bail now a) es b =
     (if filter (overdue now a) es = [] then b
      else Some (entry_reason a (last (filter (overdue now a) es))))"
  by (induction es arbitrary: b) (auto simp: next_bail_def)

section \<open>One poll\<close>

definition log_interval :: "adapter \<Rightarrow> duration" where
  "log_interval a = (if pollErrorLogInterval (a_opts a) \<le> 0 then defaultPollErrorLogInterval
                     else pollErrorLogInterval (a_opts a))"

definition real_errors :: "fetches \<Rightarrow> adapter \<Rightarrow> (string \<times> int \<times> go_error) list" where
  "real_errors f a = filter (real_error (recoveredKeys f a)) (EachError f)"

definition noted :: "instant \<Rightarrow> fetches \<Rightarrow> adapter \<Rightarrow> adapter" where
  "noted now f a =
     fold (noteError now (log_interval a)) (real_errors f a) (clearStreaks (recoveredKeys f a) a)"

definition overdue_errors :: "instant \<Rightarrow> fetches \<Rightarrow> adapter \<Rightarrow> (string \<times> int \<times> go_error) list" where
  "overdue_errors now f a =
     filter (overdue now (clearStreaks (recoveredKeys f a) a)) (real_errors f a)"

lemma clear_opts [simp]: "a_opts (clearStreaks ks a) = a_opts a"
  by (simp add: clearStreaks_def)

lemma noted_frame: "streak_frame a (noted now f a)"
  unfolding noted_def by (rule streak_frame_trans [OF streak_frame_clear fold_noteError_frame])

lemma handlePollErrors_wired:
  assumes "a_logger a \<noteq> None" and "escalates a"
  shows "handlePollErrors now f a =
    (Ok (real_errors f a \<noteq> []),
     if overdue_errors now f a = [] then noted now f a
     else bailed (entry_reason a (last (overdue_errors now f a))) (noted now f a))"
proof -
  let ?c = "clearStreaks (recoveredKeys f a) a"
  have c: "a_logger ?c \<noteq> None" using assms(1) by (simp add: clearStreaks_def)
  have n: "a_logger (noted now f a) \<noteq> None" "escalates (noted now f a)"
    using assms streak_frameD [OF noted_frame [of a now f]] by simp_all
  have e: "entry_reason ?c = entry_reason a" by (intro ext) (simp add: entry_reason_def)
  have "(\<exists>x \<in> set (EachError f). real_error (recoveredKeys f a) x) \<longleftrightarrow> real_errors f a \<noteq> []"
    by (auto simp: real_errors_def filter_empty_conv)
  then show ?thesis
    using bail_wired [OF n] e
    by (simp add: handlePollErrors_def Let_def go_bind_app [of "pollErrorLoop n l r x b" for n l r x b]
        pollErrorLoop_wired [OF c] fold_next_bail go_bind_app [of "bail r" for r]
        flip: real_errors_def noted_def overdue_errors_def log_interval_def)
qed

lemma since_clear:
  "map_of (a_pollErrSince (clearStreaks ks a)) k = (if k \<in> set ks then None else map_of (a_pollErrSince a) k)"
  by (simp add: clearStreaks_def alist_map.get_fold_del)

lemma recoveredKeys_sub: "k \<in> set (recoveredKeys f a) \<Longrightarrow> k \<in> record_key ` set (EachRecord f)"
  by (auto simp: recoveredKeys_def split: if_splits)

lemma recoveredKeys_streak:
  "map_of (a_pollErrSince a) k \<noteq> None \<Longrightarrow> k \<in> record_key ` set (EachRecord f) \<Longrightarrow>
   k \<in> set (recoveredKeys f a)"
  by (auto simp: recoveredKeys_def)

lemma noted_since:
  "map_of (a_pollErrSince (noted now f a)) k =
     (if k \<in> entry_key ` set (real_errors f a)
      then Some (case map_of (a_pollErrSince a) k of None \<Rightarrow> now | Some t \<Rightarrow> t)
      else if k \<in> record_key ` set (EachRecord f) then None
      else map_of (a_pollErrSince a) k)"
proof -
  have "k \<notin> set (recoveredKeys f a)" if "k \<in> entry_key ` set (real_errors f a)"
    using that by (auto simp: real_errors_def real_error_def entry_key_def)
  then show ?thesis
    using recoveredKeys_sub [of k f a] recoveredKeys_streak [of a k f]
    by (auto simp: noted_def fold_noteError_since since_or_def since_clear)
qed

lemma bailed_since [simp]: "a_pollErrSince (bailed r a) = a_pollErrSince a"
  by (simp add: bailed_def)

lemma handle_since:
  assumes "a_logger a \<noteq> None" and "escalates a"
  shows "a_pollErrSince (snd (handlePollErrors now f a)) = a_pollErrSince (noted now f a)"
  by (simp add: handlePollErrors_wired [OF assms])

text \<open>
  What \<open>handlePollErrors\<close> relies on in \<open>kgo.Fetches\<close>: \<open>Err\<close> returns the first of the errors, so it
  is nil only when \<open>EachError\<close> visits none.
\<close>

definition err_reports_errors :: "fetches \<Rightarrow> bool" where
  "err_reports_errors f \<longleftrightarrow> (EachError f \<noteq> [] \<longrightarrow> fetches_Err f \<noteq> None)"

lemma recoveredKeys_all:
  "err_reports_errors f \<Longrightarrow> EachError f \<noteq> [] \<Longrightarrow>
   set (recoveredKeys f a) = record_key ` set (EachRecord f)"
  by (auto simp: recoveredKeys_def err_reports_errors_def)

text \<open>
  C13. One poll changes the error streak of a partition in exactly three ways. A delivered record
  ends it, and an error the same poll reports for that partition starts none, whether or not any
  streak was running before. On a partition that delivered nothing, a reported error other than a
  timeout starts a streak at the current time or continues the one already running. Otherwise,
  in particular when the partition is absent from the poll, the streak stays as it was.
\<close>

theorem poll_updates_streak:
  assumes "a_logger a \<noteq> None" and "escalates a" and "err_reports_errors f"
  shows "map_of (a_pollErrSince (snd (handlePollErrors now f a))) key =
     (if \<exists>r \<in> set (EachRecord f). partition_key (rTopic r) (rPartition r) = key then None
      else if \<exists>(topic, part, err) \<in> set (EachError f).
                partition_key topic part = key \<and> \<not> errors_Is err DeadlineExceeded
      then Some (case map_of (a_pollErrSince a) key of None \<Rightarrow> now | Some t \<Rightarrow> t)
      else map_of (a_pollErrSince a) key)"
proof -
  have "key \<in> entry_key ` set (real_errors f a) \<longleftrightarrow>
      key \<notin> record_key ` set (EachRecord f) \<and>
      (\<exists>(topic, part, err) \<in> set (EachError f). partition_key topic part = key \<and>
         \<not> errors_Is err DeadlineExceeded)"
  proof (cases "EachError f = []")
    case True
    then show ?thesis by (simp add: real_errors_def)
  next
    case False
    then show ?thesis
      unfolding real_errors_def real_error_def entry_key_def recoveredKeys_all [OF assms(3) False]
      by force
  qed
  moreover have "key \<in> record_key ` set (EachRecord f) \<longleftrightarrow>
      (\<exists>r \<in> set (EachRecord f). partition_key (rTopic r) (rPartition r) = key)" by auto
  ultimately show ?thesis
    unfolding handle_since [OF assms(1,2)] noted_since by simp
qed

text \<open>
  C12. A poll stops the consumer exactly when bailing is enabled and some partition reports a real
  error in it while its streak has lasted at least the threshold. The reason names such a
  partition and wraps its error, the consumer's emergency shutdown and the release of the client
  follow the log line in that order, and an adapter that has already bailed does nothing more.
\<close>

theorem poll_bails_iff_overdue:
  assumes "a_logger a \<noteq> None" and "escalates a"
  shows "\<exists>logs tail.
           a_effects (snd (handlePollErrors now f a)) = a_effects a @ logs @ tail \<and>
           (\<forall>e \<in> set logs. \<exists>t p d err. e = Logged SevError (MsgPollError t p d err)) \<and>
           (tail \<noteq> [] \<longleftrightarrow>
              \<not> a_bailOnce a \<and> pollErrorBailAfter (a_opts a) > 0 \<and>
              (\<exists>entry \<in> set (real_errors f a).
                 time_Sub now (since_or now (clearStreaks (recoveredKeys f a) a) (entry_key entry))
                   \<ge> pollErrorBailAfter (a_opts a))) \<and>
           (tail \<noteq> [] \<longrightarrow>
              (\<exists>(topic, part, err) \<in> set (real_errors f a).
                 let reason = bail_reason topic part (pollErrorBailAfter (a_opts a)) err
                 in time_Sub now (since_or now (clearStreaks (recoveredKeys f a) a) (partition_key topic part))
                      \<ge> pollErrorBailAfter (a_opts a) \<and>
                    tail = [Logged SevError (MsgStoppingConsumer reason), EmergencyShutdown reason,
                            SpawnedUnsubscribe]))"
proof -
  obtain es where es: "a_effects (noted now f a) = a_effects a @ es"
    "\<forall>e \<in> set es. \<exists>t p d err. e = Logged SevError (MsgPollError t p d err)"
    and b: "a_bailOnce (noted now f a) = a_bailOnce a"
    using noted_frame [of a now f] by (auto simp: streak_frame_def)
  let ?o = "overdue_errors now f a"
  let ?r = "entry_reason a (last ?o)"
  let ?tail = "if a_bailOnce a \<or> ?o = [] then []
    else [Logged SevError (MsgStoppingConsumer ?r), EmergencyShutdown ?r, SpawnedUnsubscribe]"
  have eff: "a_effects (snd (handlePollErrors now f a)) = a_effects a @ es @ ?tail"
    using es b by (simp add: handlePollErrors_wired [OF assms] bailed_def)
  have iff: "?o \<noteq> [] \<longleftrightarrow> pollErrorBailAfter (a_opts a) > 0 \<and>
      (\<exists>entry \<in> set (real_errors f a).
         time_Sub now (since_or now (clearStreaks (recoveredKeys f a) a) (entry_key entry))
           \<ge> pollErrorBailAfter (a_opts a))"
    by (auto simp: overdue_errors_def overdue_def filter_empty_conv)
  have last: "last ?o \<in> set (real_errors f a) \<and>
      time_Sub now (since_or now (clearStreaks (recoveredKeys f a) a) (entry_key (last ?o)))
        \<ge> pollErrorBailAfter (a_opts a)" if "?o \<noteq> []"
    using last_in_set [OF that] by (simp add: overdue_errors_def overdue_def)
  have reason: "\<exists>(topic, part, err) \<in> set (real_errors f a).
      let reason = bail_reason topic part (pollErrorBailAfter (a_opts a)) err
      in time_Sub now (since_or now (clearStreaks (recoveredKeys f a) a) (partition_key topic part))
           \<ge> pollErrorBailAfter (a_opts a) \<and> ?tail = [Logged SevError (MsgStoppingConsumer reason),
             EmergencyShutdown reason, SpawnedUnsubscribe]" if "?tail \<noteq> []"
    using that last
    by (intro bexI [of _ "last ?o"]) (auto simp: entry_reason_def entry_key_def split: prod.splits if_splits)
  show ?thesis
    using eff es(2) iff reason by (intro exI [of _ es] exI [of _ ?tail]) auto
qed

section \<open>Concrete instances\<close>

definition sample_error :: go_error where
  "sample_error = KafkaError 1 6 ''NOT_LEADER_FOR_PARTITION''"

definition failing_poll :: fetches where
  "failing_poll = \<lparr>IsClientClosed = False, EachRecord = [], EachError = [(''t'', 0, sample_error)],
                   fetches_Err = Some sample_error\<rparr>"

lemma sample_error_real [simp]: "\<not> errors_Is sample_error DeadlineExceeded"
  by (simp add: sample_error_def)

lemma failing_poll_simps [simp]:
  "EachError failing_poll = [(''t'', 0, sample_error)]" "EachRecord failing_poll = []"
  "IsClientClosed failing_poll = False" "recoveredKeys failing_poll a = []"
  by (simp_all add: failing_poll_def recoveredKeys_def)

lemma real_errors_failing_poll [simp]: "real_errors failing_poll a = [(''t'', 0, sample_error)]"
  by (simp add: real_errors_def real_error_def)

lemma wired_adapter_logger [simp]: "a_logger wired_adapter \<noteq> None" "escalates wired_adapter"
  by (simp_all add: wired_adapter_def escalates_def)

text \<open>A record and an error on partition 0, an error alone on partition 1.\<close>

definition recovering_poll :: fetches where
  "recovering_poll =
     \<lparr>IsClientClosed = False, EachRecord = [\<lparr>rTopic = ''t'', rPartition = 0, rOffset = 7, rKey = []\<rparr>],
      EachError = [(''t'', 0, sample_error), (''t'', 1, sample_error)], fetches_Err = Some sample_error\<rparr>"

theorem poll_updates_streak_witness:
  "map_of (a_pollErrSince (snd (handlePollErrors 5 recovering_poll wired_adapter))) (partition_key ''t'' 0) = None \<and>
   map_of (a_pollErrSince (snd (handlePollErrors 5 recovering_poll wired_adapter))) (partition_key ''t'' 1) = Some 5"
proof -
  have "err_reports_errors recovering_poll" by (simp add: err_reports_errors_def recovering_poll_def)
  moreover have "partition_key ''t'' 0 \<noteq> partition_key ''t'' 1"
    by (simp add: partition_key_def)
  ultimately show ?thesis
    using poll_updates_streak [of wired_adapter recovering_poll 5 "partition_key ''t'' 0"]
      poll_updates_streak [of wired_adapter recovering_poll 5 "partition_key ''t'' 1"]
    by (simp add: recovering_poll_def wired_adapter_def NewCustom_def escalates_def)
qed

definition streaking_adapter :: adapter where
  "streaking_adapter = wired_adapter\<lparr>a_pollErrSince := [(partition_key ''t'' 0, 0)]\<rparr>"

theorem poll_bails_iff_overdue_witness:
  "\<exists>logs reason.
     a_effects (snd (handlePollErrors (10 * Minute) failing_poll streaking_adapter)) =
       logs @ [Logged SevError (MsgStoppingConsumer reason), EmergencyShutdown reason, SpawnedUnsubscribe] \<and>
     errors_Is reason sample_error"
proof -
  have h: "a_logger streaking_adapter \<noteq> None" "escalates streaking_adapter"
    by (simp_all add: streaking_adapter_def wired_adapter_def escalates_def)
  have s: "a_effects streaking_adapter = []" "a_bailOnce streaking_adapter = False"
    "pollErrorBailAfter (a_opts streaking_adapter) = 10 * Minute"
    "since_or n (clearStreaks [] streaking_adapter) (partition_key ''t'' 0) = 0" for n
    by (simp_all add: streaking_adapter_def wired_adapter_def NewCustom_def defaultAdapterOptions_def
        since_or_def clearStreaks_def)
  have o: "time_Sub (10 * Minute) 0 = 10 * Minute" by (simp add: time_Sub_def)
  from poll_bails_iff_overdue [OF h, of "10 * Minute" failing_poll] obtain logs tail where
    e: "a_effects (snd (handlePollErrors (10 * Minute) failing_poll streaking_adapter)) = logs @ tail"
    and ne: "tail \<noteq> []"
    and t: "\<exists>(topic, part, err) \<in> {(''t'', 0, sample_error)}.
      let reason = bail_reason topic part (10 * Minute) err
      in tail = [Logged SevError (MsgStoppingConsumer reason), EmergencyShutdown reason, SpawnedUnsubscribe]"
    using s o by (auto simp: entry_key_def Let_def)
  from t have "tail = [Logged SevError (MsgStoppingConsumer (bail_reason ''t'' 0 (10 * Minute) sample_error)),
      EmergencyShutdown (bail_reason ''t'' 0 (10 * Minute) sample_error), SpawnedUnsubscribe]"
    by (simp add: Let_def)
  moreover have "errors_Is (bail_reason ''t'' 0 (10 * Minute) sample_error) sample_error"
    by (simp add: bail_reason_def)
  ultimately show ?thesis using e by blast
qed

section \<open>Log throttling\<close>

lemma noteError_effects:
  "a_effects (noteError now le (topic, part, err) a) = a_effects a @
     (if log_due now le (partition_key topic part) err a
      then [Logged SevError (MsgPollError topic part
              (duration_Truncate (time_Sub now (since_or now a (partition_key topic part))) Second) err)]
      else [])"
  by (simp add: noteError_def Let_def)

lemma noteError_logged:
  "map_of (a_pollErrLogged (noteError now le (topic, part, err) a)) key =
     (if key = partition_key topic part \<and> log_due now le key err a then Some now
      else map_of (a_pollErrLogged a) key)"
  by (auto simp: noteError_def Let_def gm_put_get)

lemma noteError_lastID:
  "map_of (a_pollErrLastID (noteError now le (topic, part, err) a)) key =
     (if key = partition_key topic part \<and> log_due now le key err a then Some (errIdentity err)
      else map_of (a_pollErrLastID a) key)"
  by (auto simp: noteError_def Let_def gm_put_get)

text \<open>
  C23. A real error on a partition is logged when it is the first of its streak, when its identity
  differs from that of the last logged one, or when the interval has passed since then, and not
  otherwise. So once an error was visited, an error of the same identity on that partition stays
  silent until the interval has passed since the last log line, and one of a different identity
  is logged at once.
\<close>

theorem poll_error_log_throttle:
  assumes "a_logger a \<noteq> None" and "real_error recovered (topic, part, err)"
    and "a' = snd (onPollError now le recovered (topic, part, err) acc a)"
    and "real_error recovered' (topic, part, err')"
    and "a'' = snd (onPollError now' le recovered' (topic, part, err') acc' a')"
  shows "(a_effects a' \<noteq> a_effects a \<longleftrightarrow> log_due now le (partition_key topic part) err a) \<and>
         (\<exists>logged. map_of (a_pollErrLogged a') (partition_key topic part) = Some logged \<and>
            (log_due now le (partition_key topic part) err a \<longrightarrow> logged = now) \<and>
            (a_effects a'' = a_effects a' \<longleftrightarrow>
               errIdentity err' = errIdentity err \<and> time_Sub now' logged < le) \<and>
            (a_effects a'' \<noteq> a_effects a' \<longrightarrow>
               (\<exists>streak. a_effects a'' = a_effects a' @ [Logged SevError (MsgPollError topic part streak err')])))"
proof -
  let ?k = "partition_key topic part"
  have a': "a' = noteError now le (topic, part, err) a"
    using assms(2,3) by (simp add: onPollError_wired [OF assms(1)])
  have "a_logger a' \<noteq> None"
    unfolding a' using assms(1) streak_frameD(1) [OF streak_frame_noteError] by simp
  then have a'': "a'' = noteError now' le (topic, part, err') a'"
    using assms(4,5) by (simp add: onPollError_wired)
  obtain l where l: "map_of (a_pollErrLogged a') ?k = Some l"
    unfolding a' noteError_logged by (cases "log_due now le ?k err a") (auto simp: log_due_def split: option.splits)
  have id: "(case map_of (a_pollErrLastID a') ?k of None \<Rightarrow> [] | Some i \<Rightarrow> i) = errIdentity err"
    unfolding a' noteError_lastID by (auto simp: log_due_def split: option.splits)
  have "log_due now' le ?k err' a' \<longleftrightarrow> errIdentity err' \<noteq> errIdentity err \<or> le \<le> time_Sub now' l"
    by (simp add: log_due_def l id)
  moreover have "a_effects a' \<noteq> a_effects a \<longleftrightarrow> log_due now le ?k err a"
    unfolding a' noteError_effects by simp
  moreover have "log_due now le ?k err a \<longrightarrow> l = now"
    using l unfolding a' noteError_logged by auto
  ultimately show ?thesis
    using l unfolding a'' noteError_effects by auto
qed

theorem poll_error_log_throttle_witness:
  "let a1 = snd (onPollError 0 Second [] (''t'', 0, sample_error) (False, None) wired_adapter)
   in a_effects a1 \<noteq> [] \<and>
      a_effects (snd (onPollError 500 Second [] (''t'', 0, sample_error) (False, None) a1)) = a_effects a1 \<and>
      a_effects (snd (onPollError 500 Second [] (''t'', 0, Canceled) (False, None) a1)) \<noteq> a_effects a1"
proof -
  let ?a1 = "snd (onPollError 0 Second [] (''t'', 0, sample_error) (False, None) wired_adapter)"
  have r: "real_error [] (''t'', 0, sample_error)" "real_error [] (''t'', 0, Canceled)"
    by (simp_all add: real_error_def)
  have e: "a_effects wired_adapter = []" "log_due 0 Second (partition_key ''t'' 0) sample_error wired_adapter"
    by (simp_all add: wired_adapter_def NewCustom_def log_due_def)
  have i: "errIdentity Canceled \<noteq> errIdentity sample_error"
    by (simp add: errIdentity_def sample_error_def Itoa_def nat_dec.simps digit_char_def)
  have s: "time_Sub 500 0 < Second" by (simp add: time_Sub_def)
  note 1 = poll_error_log_throttle [OF wired_adapter_logger(1) r(1) refl r(1) refl,
    of 0 Second "(False, None)" 500 "(False, None)"]
  note 2 = poll_error_log_throttle [OF wired_adapter_logger(1) r(1) refl r(2) refl,
    of 0 Second "(False, None)" 500 "(False, None)"]
  show ?thesis
    using 1 2 e i s unfolding Let_def by auto
qed

section \<open>A partition that keeps failing stops the consumer\<close>

text \<open>A sequence of polls, each with its time, and the partition failing in each of them.\<close>

definition poll_errors_step :: "instant \<times> fetches \<Rightarrow> adapter \<Rightarrow> adapter" where
  "poll_errors_step p a = snd (handlePollErrors (fst p) (snd p) a)"

definition fails_in :: "string \<Rightarrow> fetches \<Rightarrow> bool" where
  "fails_in key f =
     ((\<exists>(topic, part, err) \<in> set (EachError f). partition_key topic part = key \<and>
         \<not> errors_Is err DeadlineExceeded) \<and>
      key \<notin> record_key ` set (EachRecord f))"

definition shutdowns :: "adapter \<Rightarrow> nat" where
  "shutdowns a = length (filter (\<lambda>e. case e of EmergencyShutdown _ \<Rightarrow> True | _ \<Rightarrow> False) (a_effects a))"

text \<open>The consumer is shut down at most once: the trace agrees with the once flag.\<close>

definition shutdown_inv :: "adapter \<Rightarrow> bool" where
  "shutdown_inv a \<longleftrightarrow> a_logger a \<noteq> None \<and> escalates a \<and> shutdowns a = (if a_bailOnce a then 1 else 0)"

lemma shutdowns_noted: "shutdowns (noted now f a) = shutdowns a"
  using noted_frame [of a now f] by (fastforce simp: streak_frame_def shutdowns_def filter_empty_conv)

lemma shutdown_inv_noted: "shutdown_inv a \<Longrightarrow> shutdown_inv (noted now f a)"
  using streak_frameD [OF noted_frame [of a now f]] by (simp add: shutdown_inv_def shutdowns_noted)

lemma shutdown_inv_bailed: "shutdown_inv a \<Longrightarrow> shutdown_inv (bailed r a)"
  by (auto simp: shutdown_inv_def bailed_def shutdowns_def escalates_def)

lemma bailed_flag: "a_bailOnce (bailed r a)"
  by (simp add: bailed_def)

lemma shutdown_inv_step: "shutdown_inv a \<Longrightarrow> shutdown_inv (poll_errors_step p a)"
  unfolding poll_errors_step_def
  by (simp add: handlePollErrors_wired shutdown_inv_noted shutdown_inv_bailed
      shutdown_inv_def [THEN iffD1])

lemma shutdown_inv_steps: "shutdown_inv a \<Longrightarrow> shutdown_inv (fold poll_errors_step ps a)"
  by (induction ps arbitrary: a) (simp_all add: shutdown_inv_step)

lemma bailOnce_step: "shutdown_inv a \<Longrightarrow> a_bailOnce a \<Longrightarrow> a_bailOnce (poll_errors_step p a)"
  using streak_frameD(3) [OF noted_frame [of a "fst p" "snd p"]]
  by (simp add: poll_errors_step_def handlePollErrors_wired shutdown_inv_def bailed_flag)

lemma opts_step: "shutdown_inv a \<Longrightarrow> a_opts (poll_errors_step p a) = a_opts a"
  using streak_frameD(2) [OF noted_frame [of a "fst p" "snd p"]]
  by (simp add: poll_errors_step_def handlePollErrors_wired shutdown_inv_def bailed_def)

lemma fails_in_real:
  assumes "fails_in key f"
  shows "key \<notin> set (recoveredKeys f a)" and "key \<in> entry_key ` set (real_errors f a)"
proof -
  show n: "key \<notin> set (recoveredKeys f a)"
    using assms recoveredKeys_sub by (auto simp: fails_in_def)
  show "key \<in> entry_key ` set (real_errors f a)"
    using assms n by (force simp: fails_in_def real_errors_def real_error_def entry_key_def)
qed

lemma fails_in_since:
  assumes "shutdown_inv a" and "fails_in key f"
  shows "map_of (a_pollErrSince (poll_errors_step (now, f) a)) key =
           Some (case map_of (a_pollErrSince a) key of None \<Rightarrow> now | Some t \<Rightarrow> t)"
  using assms(1) fails_in_real(2) [OF assms(2)]
  by (simp add: poll_errors_step_def handle_since shutdown_inv_def noted_since)

lemma fails_in_overdue:
  assumes "shutdown_inv a" and "fails_in key f" and "map_of (a_pollErrSince a) key = Some t"
    and "0 < pollErrorBailAfter (a_opts a)" and "pollErrorBailAfter (a_opts a) \<le> time_Sub now t"
  shows "a_bailOnce (poll_errors_step (now, f) a)"
proof -
  obtain e where e: "e \<in> set (real_errors f a)" "entry_key e = key"
    using fails_in_real(2) [OF assms(2)] by blast
  have "since_or now (clearStreaks (recoveredKeys f a) a) key = t"
    using fails_in_real(1) [OF assms(2)] assms(3) by (simp add: since_or_def since_clear)
  with e assms(4,5) have "overdue_errors now f a \<noteq> []"
    by (auto simp: overdue_errors_def overdue_def filter_empty_conv)
  with assms(1) show ?thesis
    by (simp add: poll_errors_step_def handlePollErrors_wired shutdown_inv_def bailed_flag)
qed

text \<open>The streak survives as long as the partition keeps failing.\<close>

lemma failing_run:
  assumes "shutdown_inv a" and "\<forall>p \<in> set ps. fails_in key (snd p)"
    and "map_of (a_pollErrSince a) key = Some t"
  shows "map_of (a_pollErrSince (fold poll_errors_step ps a)) key = Some t \<and>
         a_opts (fold poll_errors_step ps a) = a_opts a"
  using assms
proof (induction ps arbitrary: a)
  case (Cons p ps)
  have "map_of (a_pollErrSince (poll_errors_step p a)) key = Some t"
    using fails_in_since [OF Cons.prems(1), of key "snd p" "fst p"] Cons.prems(2,3) by simp
  with Cons.IH [OF shutdown_inv_step [OF Cons.prems(1)]] Cons.prems show ?case
    by (simp add: opts_step)
qed simp

text \<open>
  C5. A partition that fails in every poll of a sequence, whatever else those polls report, stops
  the consumer once the failure has lasted the threshold: after the last poll the emergency
  shutdown has been requested, and exactly once, however many polls follow.
\<close>

theorem sustained_failure_stops_consumer:
  assumes "shutdown_inv a" and "options_ok (a_opts a)" and "0 < pollErrorBailAfter (a_opts a)"
    and "\<forall>p \<in> set (first # mid @ [final]). fails_in key (snd p)"
    and "fst first + pollErrorBailAfter (a_opts a) \<le> fst final"
    and "map_of (a_pollErrSince a) key = None"
  shows "shutdowns (fold poll_errors_step (first # mid @ final # rest) a) = 1"
proof -
  let ?d = "pollErrorBailAfter (a_opts a)"
  let ?a1 = "poll_errors_step first a"
  let ?a2 = "fold poll_errors_step mid ?a1"
  have i1: "shutdown_inv ?a1" by (rule shutdown_inv_step [OF assms(1)])
  have s1: "map_of (a_pollErrSince ?a1) key = Some (fst first)"
    using fails_in_since [OF assms(1), of key "snd first" "fst first"] assms(4,6) by simp
  have i2: "shutdown_inv ?a2" by (rule shutdown_inv_steps [OF i1])
  have s2: "map_of (a_pollErrSince ?a2) key = Some (fst first)" and o2: "a_opts ?a2 = a_opts a"
    using failing_run [OF i1 _ s1, of mid] assms(4) opts_step [OF assms(1)] by auto
  have "?d \<le> time_Sub (fst final) (fst first)"
    using assms(2,5) by (intro time_Sub_ge [THEN iffD2]) (auto simp: options_ok_def)
  then have "a_bailOnce (poll_errors_step (fst final, snd final) ?a2)"
    using fails_in_overdue [OF i2 _ s2, of "snd final" "fst final"] assms(3,4) o2 by simp
  then have b: "a_bailOnce (poll_errors_step final ?a2)" by simp
  have i3: "shutdown_inv (poll_errors_step final ?a2)" by (rule shutdown_inv_step [OF i2])
  have "a_bailOnce (fold poll_errors_step rest a') \<and> shutdown_inv (fold poll_errors_step rest a')"
    if "a_bailOnce a'" "shutdown_inv a'" for a'
    using that by (induction rest arbitrary: a') (simp_all add: bailOnce_step shutdown_inv_step)
  from this [OF b i3] show ?thesis by (simp add: shutdown_inv_def)
qed

theorem sustained_failure_stops_consumer_witness:
  "shutdowns (fold poll_errors_step
     [(0, failing_poll), (Minute, failing_poll), (10 * Minute, failing_poll), (11 * Minute, failing_poll)]
     wired_adapter) = 1"
proof -
  have h: "shutdown_inv wired_adapter" "options_ok (a_opts wired_adapter)"
    "0 < pollErrorBailAfter (a_opts wired_adapter)"
    "map_of (a_pollErrSince wired_adapter) (partition_key ''t'' 0) = None"
    "fst (0, failing_poll) + pollErrorBailAfter (a_opts wired_adapter) \<le> fst (10 * Minute, failing_poll)"
    by (simp_all add: shutdown_inv_def wired_adapter_def NewCustom_def escalates_def shutdowns_def
        options_ok_def defaultAdapterOptions_def)
  have f: "\<forall>p \<in> set ((0, failing_poll) # [(Minute, failing_poll)] @ [(10 * Minute, failing_poll)]).
      fails_in (partition_key ''t'' 0) (snd p)"
    by (simp add: fails_in_def)
  show ?thesis
    using sustained_failure_stops_consumer [OF h(1,2,3) f h(5,4), of "[(11 * Minute, failing_poll)]"]
    by simp
qed

text \<open>
  C35. The maps are keyed by text, and the text identifies the partition: two partitions with
  non-negative numbers, whatever their topics, share a key only when topic and number agree.
\<close>

theorem partition_key_injective:
  assumes "0 \<le> p" and "0 \<le> q"
  shows "partition_key t p = partition_key u q \<longleftrightarrow> t = u \<and> p = q"
proof
  assume "partition_key t p = partition_key u q"
  then have "t @ CHR ''-'' # nat_dec (nat p) = u @ CHR ''-'' # nat_dec (nat q)"
    using assms by (simp add: partition_key_def Itoa_nonneg)
  from append_dash_inj [OF this nat_dec_no_dash nat_dec_no_dash] assms show "t = u \<and> p = q" by auto
qed simp

theorem partition_key_injective_witness:
  "partition_key ''a-1'' 2 \<noteq> partition_key ''a'' 12"
  using partition_key_injective [of 2 12 "''a-1''" "''a''"] by simp

section \<open>Fetching one record\<close>

definition foreign_record :: "kgo_record \<Rightarrow> adapter \<Rightarrow> bool" where
  "foreign_record r a = (a_topicName a \<noteq> [] \<and> rTopic r \<noteq> a_topicName a)"

definition errors_handled :: "instant \<Rightarrow> fetches \<Rightarrow> adapter \<Rightarrow> adapter" where
  "errors_handled now f a = snd (handlePollErrors now f a)"

lemma fetchNext_closed:
  "IsClientClosed f \<or> a_fetchCancelled a \<Longrightarrow> fetchNext now f a = (Ok (None, True), a)"
  by (simp add: fetchNext_def)

lemma fetchNext_foreign:
  assumes "a_logger a \<noteq> None" and "escalates a" and "\<not> IsClientClosed f" and "\<not> a_fetchCancelled a"
    and "EachRecord f = r # rs" and "foreign_record r a"
  shows "fetchNext now f a =
    (Ok (None, True),
     bailed (foreignTopicError (rTopic r) (a_topicName a))
       (a\<lparr>a_effects := a_effects a @
           [Logged SevError (MsgForeignTopic (foreignTopicError (rTopic r) (a_topicName a)))]\<rparr>))"
proof -
  let ?e = "foreignTopicError (rTopic r) (a_topicName a)"
  let ?a1 = "a\<lparr>a_effects := a_effects a @ [Logged SevError (MsgForeignTopic ?e)]\<rparr>"
  have "bail ?e ?a1 = (Ok (), bailed ?e ?a1)"
    using assms(1,2) by (intro bail_wired) (simp_all add: escalates_def)
  with assms show ?thesis
    by (simp add: fetchNext_def foreign_record_def go_bind_logf go_bind_app [of "bail r" for r] Let_def
        del: not_None_eq)
qed

lemma fetchNext_own:
  assumes "a_logger a \<noteq> None" and "escalates a" and "\<not> IsClientClosed f" and "\<not> a_fetchCancelled a"
    and "\<forall>r rs. EachRecord f = r # rs \<longrightarrow> \<not> foreign_record r a"
  shows "fetchNext now f a =
    (Ok (case EachRecord f of [] \<Rightarrow> None | r # _ \<Rightarrow> Some r, False),
     if EachRecord f = [] \<and> real_errors f a \<noteq> [] \<and> pollErrorBackoff (a_opts a) > 0
     then (errors_handled now f a)\<lparr>a_effects := a_effects (errors_handled now f a) @
            [BackedOff (pollErrorBackoff (a_opts a))]\<rparr>
     else errors_handled now f a)"
proof -
  have h: "handlePollErrors now f a = (Ok (real_errors f a \<noteq> []), errors_handled now f a)"
    by (simp add: errors_handled_def handlePollErrors_wired [OF assms(1,2)])
  show ?thesis
  proof (cases "EachRecord f")
    case Nil
    with assms(3,4) show ?thesis
      by (simp add: fetchNext_def go_bind_app [of "handlePollErrors now f"] h
          go_bind_app [of "go_when b m" for b m] go_when_app Let_def)
  next
    case (Cons r rs)
    with assms(5) have "\<not> (a_topicName a \<noteq> [] \<and> rTopic r \<noteq> a_topicName a)"
      by (simp add: foreign_record_def)
    with Cons assms(3,4) show ?thesis
      by (auto simp add: fetchNext_def go_bind_app [of "handlePollErrors now f"] h
          go_bind_app [of "go_when b m" for b m] go_when_app Let_def)
  qed
qed

text \<open>
  C20. One fetch delivers the first record the poll returned, whatever errors other partitions
  reported in it, and only a record of the consumer's own topic: a record of another topic is
  never delivered, stops the fetch loop and shuts the consumer down. The pause before the next
  poll is taken exactly when the poll brought a real error and no record, and it is enabled.
\<close>

theorem fetchNext_delivers_own_topic_only:
  assumes "a_logger a \<noteq> None" and "escalates a" and "\<not> IsClientClosed f" and "\<not> a_fetchCancelled a"
  shows "case EachRecord f of
      [] \<Rightarrow> fst (fetchNext now f a) = Ok (None, False) \<and>
           ((\<exists>d. BackedOff d \<in> set (drop (length (a_effects (errors_handled now f a)))
                              (a_effects (snd (fetchNext now f a))))) \<longleftrightarrow>
            real_errors f a \<noteq> [] \<and> pollErrorBackoff (a_opts a) > 0)
    | r # rs \<Rightarrow>
        (if a_topicName a \<noteq> [] \<and> rTopic r \<noteq> a_topicName a
         then fst (fetchNext now f a) = Ok (None, True) \<and>
              (\<not> a_bailOnce a \<longrightarrow> EmergencyShutdown (foreignTopicError (rTopic r) (a_topicName a))
                                   \<in> set (a_effects (snd (fetchNext now f a))))
         else fetchNext now f a = (Ok (Some r, False), errors_handled now f a))"
proof (cases "EachRecord f")
  case Nil
  then show ?thesis using fetchNext_own [OF assms, of now] by simp
next
  case (Cons r rs)
  show ?thesis
  proof (cases "foreign_record r a")
    case True
    then show ?thesis
      using fetchNext_foreign [OF assms Cons True, of now] Cons
      by (simp add: foreign_record_def bailed_def)
  next
    case False
    then show ?thesis
      using fetchNext_own [OF assms, of now] Cons by (simp add: foreign_record_def)
  qed
qed

definition sample_record :: kgo_record where
  "sample_record = \<lparr>rTopic = ''orders'', rPartition = 0, rOffset = 7, rKey = []\<rparr>"

definition mixed_poll :: fetches where
  "mixed_poll = failing_poll\<lparr>EachRecord := [sample_record]\<rparr>"

theorem fetchNext_delivers_own_topic_only_witness:
  "fst (fetchNext 0 mixed_poll (wired_adapter\<lparr>a_topicName := ''orders''\<rparr>)) = Ok (Some sample_record, False) \<and>
   fst (fetchNext 0 mixed_poll (wired_adapter\<lparr>a_topicName := ''other''\<rparr>)) = Ok (None, True)"
proof -
  have h: "a_logger (wired_adapter\<lparr>a_topicName := t\<rparr>) \<noteq> None" "escalates (wired_adapter\<lparr>a_topicName := t\<rparr>)"
    "\<not> IsClientClosed mixed_poll" "\<not> a_fetchCancelled (wired_adapter\<lparr>a_topicName := t\<rparr>)" for t
    by (simp_all add: wired_adapter_def NewCustom_def escalates_def mixed_poll_def)
  show ?thesis
    using fetchNext_delivers_own_topic_only [OF h(1) h(2) h(3) h(4), of 0 "''orders''"]
      fetchNext_delivers_own_topic_only [OF h(1) h(2) h(3) h(4), of 0 "''other''"]
    by (simp add: mixed_poll_def sample_record_def)
qed

section \<open>Frame of the fetch side\<close>

text \<open>
  The fields the poll side and the release own: neither error handling, nor bailing out, nor a
  fetch changes them, on any adapter and also when it panics; and a bail is never taken back.
\<close>

definition fetch_frame :: "adapter \<Rightarrow> adapter \<Rightarrow> bool" where
  "fetch_frame a b \<longleftrightarrow>
     a_pendingRecord b = a_pendingRecord a \<and> a_recordAwaitingDispatch b = a_recordAwaitingDispatch a \<and>
     a_pendingAssigned b = a_pendingAssigned a \<and> a_pendingRevoked b = a_pendingRevoked a \<and>
     a_fetchCancelled b = a_fetchCancelled a \<and>
     a_fetchedRecords b = a_fetchedRecords a \<and> a_fetchLoopDone b = a_fetchLoopDone a \<and>
     a_recordDispatched b = a_recordDispatched a \<and> a_fetchCancel b = a_fetchCancel a \<and>
     a_fetchStart b = a_fetchStart a \<and> a_pollRecordsFn b = a_pollRecordsFn a \<and>
     a_logger b = a_logger a \<and> a_adaptedConsumer b = a_adaptedConsumer a \<and> a_ctx b = a_ctx a \<and>
     a_topicName b = a_topicName a \<and> a_unsubscribeOnce b = a_unsubscribeOnce a \<and>
     (a_bailOnce a \<longrightarrow> a_bailOnce b)"

lemma reflp_fetch_frame [simp, intro]: "reflp fetch_frame"
  by (simp add: reflpI fetch_frame_def)

lemma transp_fetch_frame [simp, intro]: "transp fetch_frame"
  by (rule transpI) (simp add: fetch_frame_def)

lemma fetch_frame_refl [simp]: "fetch_frame a a"
  by (simp add: fetch_frame_def)

lemma keeps_fetch_logf [simp, intro]: "keeps fetch_frame (logf sev m)"
  by (simp add: keeps_def logf_app fetch_frame_def)

lemma keeps_fetch_perform [simp, intro]: "keeps fetch_frame (perform e)"
  by (simp add: keeps_def fetch_frame_def)

lemma keeps_fetch_return [simp, intro]: "keeps fetch_frame (go_return x)"
  by (simp add: keeps_def)

lemma keeps_fetch_bail [simp, intro]: "keeps fetch_frame (bail r)"
  unfolding keeps_def bail_def
  by (auto simp: go_bind_logf logf_app fetch_frame_def split: option.splits)

lemma keeps_fetch_onPollError [simp, intro]: "keeps fetch_frame (onPollError now le rec e acc)"
  unfolding keeps_def
  by (auto simp: onPollError_def Let_def go_bind_app [of "go_when b m" for b m] go_when_app
      go_bind_logf fetch_frame_def split: prod.splits option.splits)

lemma keeps_fetch_loop [simp, intro]: "keeps fetch_frame (pollErrorLoop now le rec es acc)"
  by (induction es arbitrary: acc) (auto intro!: keeps_bind)

lemma fetch_frame_clear [simp]: "fetch_frame a (clearStreaks ks a)"
  by (simp add: fetch_frame_def clearStreaks_def)

lemma keeps_fetch_handle [simp, intro]: "keeps fetch_frame (handlePollErrors now f)"
proof -
  have "keeps fetch_frame (case r of None \<Rightarrow> go_return () | Some x \<Rightarrow> bail x)" for r
    by (cases r) auto
  then have "keeps fetch_frame (go_bind (go_modify (clearStreaks rec)) (\<lambda>_.
      go_bind (pollErrorLoop now le rec es (False, None)) (\<lambda>acc.
      go_bind (case snd acc of None \<Rightarrow> go_return () | Some reason \<Rightarrow> bail reason) (\<lambda>_. go_return (fst acc)))))"
    for le rec es
    by (intro keeps_bind keeps_modify) auto
  then show ?thesis
    unfolding keeps_def handlePollErrors_def Let_def by blast
qed

lemma keeps_fetchNext [simp, intro]: "keeps fetch_frame (fetchNext now f)"
proof -
  have 1: "keeps fetch_frame (go_bind (logf SevError m) (\<lambda>_. go_bind (bail e) (\<lambda>_. go_return x)))" for m e x
    by (intro keeps_bind) auto
  have 2: "keeps fetch_frame (go_bind (handlePollErrors now f) (\<lambda>s.
      go_bind (go_when (b s) (perform d)) (\<lambda>_. go_return x)))" for b d x
    by (intro keeps_bind keeps_when) auto
  note f1 = 1 [unfolded keeps_def, rule_format] and f2 = 2 [unfolded keeps_def, rule_format]
  show ?thesis
    unfolding keeps_def fetchNext_def Let_def
    by (intro allI) (simp only: if_distrib [of snd] split: if_split option.split list.split, intro conjI impI allI; (rule f1 | rule f2 | simp only: fetch_frame_refl snd_conv))
qed

end
