(* ===== verification/Broker_Port.thy ===== *)
theory Broker_Port
  imports Poll_Errors
begin

text \<open>
  The record-level operations of the broker port (\<open>franzadapter/broker_port.go\<close>):
  \<open>ExtractEnvelope\<close>, \<open>CommitOffsets\<close> with its advisory on lost group membership, and the
  operations that do nothing for this client (\<open>AckRebalance\<close>, \<open>BrokerQuery\<close>), and
  \<open>ConsumerGroup\<close>. What the client answers to a commit, the value of its session timeout option
  and the two \<open>kerr\<close> errors are parameters, gathered in \<open>commit_env\<close>.
\<close>

section \<open>Envelopes\<close>

record Envelope =
  e_Partition :: int
  e_Offset :: int
  e_Key :: string
  e_Ctx :: "nat option"

definition ExtractEnvelope :: "adapter \<Rightarrow> kgo_record \<Rightarrow> Envelope" where
  "ExtractEnvelope a record =
     (let msgKey = rKey record;
          key = (if length msgKey > 0 \<and> utf8_Valid msgKey then bytes_to_string msgKey
                 else if length msgKey > 0 then base64_Encode msgKey
                 else Itoa (rPartition record))
      in \<lparr>e_Partition = rPartition record, e_Offset = rOffset record, e_Key = key, e_Ctx = a_ctx a\<rparr>)"

text \<open>Which of the three ways the key is taken.\<close>

datatype key_form = TextKey | BinaryKey | NoKey

definition key_form_of :: "kgo_record \<Rightarrow> key_form" where
  "key_form_of r = (if rKey r = [] then NoKey else if utf8_Valid (rKey r) then TextKey else BinaryKey)"

section \<open>Committing\<close>

text \<open>
  A \<open>nexus.Message\<close>, of which the code reads the pointer \<open>Payload\<close>: \<open>None\<close> is nil.
\<close>

record message =
  m_Payload :: "kgo_record option"

record commit_env =
  ce_commitRecords :: "kgo_record list \<Rightarrow> go_error option"
  ce_sessionTimeout :: "nat \<Rightarrow> duration option"
  ce_UnknownMemberID :: go_error
  ce_IllegalGeneration :: go_error

definition currentSessionTimeoutDescription :: "commit_env \<Rightarrow> adapter \<Rightarrow> string" where
  "currentSessionTimeoutDescription env a =
     (case a_client a of
        None \<Rightarrow> ''<unknown - client not initialised>''
      | Some cl \<Rightarrow> (case ce_sessionTimeout env cl of
                      Some d \<Rightarrow> duration_String d
                    | None \<Rightarrow> ''<unknown>''))"

definition logGroupMembershipHintIfApplicable :: "commit_env \<Rightarrow> go_error \<Rightarrow> (adapter, unit) go" where
  "logGroupMembershipHintIfApplicable env err =
     (\<lambda>a. if \<not> errors_Is err (ce_UnknownMemberID env) \<and> \<not> errors_Is err (ce_IllegalGeneration env)
          then (Ok (), a)
          else logf SevWarn (MsgMembershipLost (currentSessionTimeoutDescription env a)) a)"

fun payloads :: "message list \<Rightarrow> kgo_record list outcome" where
  "payloads [] = Ok []"
| "payloads (m # ms) =
     (case m_Payload m of
        None \<Rightarrow> Panic nilDereference
      | Some r \<Rightarrow> (case payloads ms of Ok rs \<Rightarrow> Ok (r # rs) | Panic p \<Rightarrow> Panic p))"

definition CommitOffsets ::
  "commit_env \<Rightarrow> message list \<Rightarrow> (adapter, message list \<times> go_error option) go" where
  "CommitOffsets env messages =
     (\<lambda>a. if length messages = 0 then (Ok ([], None), a)
          else (case payloads messages of
                  Panic p \<Rightarrow> (Panic p, a)
                | Ok records \<Rightarrow>
                    (case a_commitRecordsFn a of
                       None \<Rightarrow> (Panic nilDereference, a)
                     | Some _ \<Rightarrow>
                         go_bind (perform (CommittedRecords records)) (\<lambda>_.
                         case ce_commitRecords env records of
                           Some err \<Rightarrow>
                             go_bind (logf SevError (MsgCommitFailed err)) (\<lambda>_.
                             go_bind (logGroupMembershipHintIfApplicable env err) (\<lambda>_.
                             go_return ([], Some (WrapError ''commit records failed: '' err))))
                         | None \<Rightarrow>
                             go_bind (logf SevDebug (MsgCommitted (length records))) (\<lambda>_.
                             go_return ([], None))) a)))"

definition AckRebalance :: "RebalanceType \<Rightarrow> RebalanceInfo list \<Rightarrow> (adapter, go_error option) go" where
  "AckRebalance t infos = go_return None"

text \<open>The query and the empty response are opaque: the code looks into neither.\<close>

definition BrokerQuery :: "'q \<Rightarrow> (adapter, unit \<times> go_error option) go" where
  "BrokerQuery q = go_return ((), None)"

definition ConsumerGroup :: "adapter \<Rightarrow> string" where
  "ConsumerGroup a = a_groupID a"

section \<open>What they do\<close>

lemma payloads_map: "payloads ms = (if None \<in> m_Payload ` set ms then Panic nilDereference
                                    else Ok (map (the \<circ> m_Payload) ms))"
  by (induction ms) (auto split: option.splits)

lemma payloads_wrap [simp]: "payloads (map (\<lambda>r. \<lparr>m_Payload = Some r\<rparr>) rs) = Ok rs"
  by (induction rs) simp_all

lemma key_of_form:
  "e_Key (ExtractEnvelope a r) =
     (case key_form_of r of TextKey \<Rightarrow> bytes_to_string (rKey r)
      | BinaryKey \<Rightarrow> base64_Encode (rKey r)
      | NoKey \<Rightarrow> Itoa (rPartition r))"
  by (simp add: ExtractEnvelope_def key_form_of_def Let_def)

text \<open>Whether the failure means that the group no longer knows this member.\<close>

definition membership_lost :: "commit_env \<Rightarrow> go_error \<Rightarrow> bool" where
  "membership_lost env err =
     (errors_Is err (ce_UnknownMemberID env) \<or> errors_Is err (ce_IllegalGeneration env))"

lemma hint_app:
  "a_logger a \<noteq> None \<Longrightarrow> logGroupMembershipHintIfApplicable env err a =
     (Ok (), a\<lparr>a_effects := a_effects a @ (if membership_lost env err
        then [Logged SevWarn (MsgMembershipLost (currentSessionTimeoutDescription env a))] else [])\<rparr>)"
  by (auto simp: logGroupMembershipHintIfApplicable_def membership_lost_def logf_app)

lemma session_description_effects [simp]:
  "currentSessionTimeoutDescription env (a\<lparr>a_effects := es\<rparr>) = currentSessionTimeoutDescription env a"
  by (simp add: currentSessionTimeoutDescription_def)

text \<open>
  C30. The envelope carries the record's partition and offset, and its key tells keys apart: two
  records whose keys are of one form (valid UTF-8 text, other bytes, or none) get the same
  envelope key exactly when their key bytes agree, and with no key at all exactly when they come
  from the same partition.
\<close>

theorem envelope_key_faithful:
  assumes "key_form_of r = key_form_of r'"
  shows "e_Partition (ExtractEnvelope a r) = rPartition r \<and> e_Offset (ExtractEnvelope a r) = rOffset r \<and>
    (e_Key (ExtractEnvelope a r) = e_Key (ExtractEnvelope a r') \<longleftrightarrow>
       (if rKey r = [] then rPartition r = rPartition r' else rKey r = rKey r'))"
proof -
  have "e_Key (ExtractEnvelope a r) = e_Key (ExtractEnvelope a r') \<longleftrightarrow>
       (if rKey r = [] then rPartition r = rPartition r' else rKey r = rKey r')"
    unfolding key_of_form assms [symmetric]
    by (cases "key_form_of r") (auto simp: base64_inj key_form_of_def split: if_splits)
  then show ?thesis by (simp add: ExtractEnvelope_def Let_def)
qed

theorem envelope_key_faithful_witness:
  "e_Key (ExtractEnvelope NewCustom \<lparr>rTopic = ''t'', rPartition = 0, rOffset = 1, rKey = [255]\<rparr>) \<noteq>
   e_Key (ExtractEnvelope NewCustom \<lparr>rTopic = ''t'', rPartition = 0, rOffset = 2, rKey = [254]\<rparr>)"
proof -
  have "key_form_of \<lparr>rTopic = ''t'', rPartition = 0, rOffset = 1, rKey = [255]\<rparr> =
        key_form_of \<lparr>rTopic = ''t'', rPartition = 0, rOffset = 2, rKey = [254]\<rparr>"
    by code_simp
  from envelope_key_faithful [OF this, of NewCustom] show ?thesis by simp
qed

text \<open>
  C25. A commit hands the client the payloads of all the messages, in order, in one call. On
  success it reports no error; on failure it returns the client's error, wrapped, and it adds the advisory about the session
  timeout exactly when the failure means that group membership is lost. Committing nothing
  does nothing, and nothing but the trace of outside calls ever changes.
\<close>

theorem commit_offsets_spec:
  assumes "a_logger a \<noteq> None" and "a_commitRecordsFn a \<noteq> None"
  shows "CommitOffsets env [] a = (Ok ([], None), a) \<and>
    (rs \<noteq> [] \<longrightarrow>
     CommitOffsets env (map (\<lambda>r. \<lparr>m_Payload = Some r\<rparr>) rs) a =
       (case ce_commitRecords env rs of
          None \<Rightarrow> (Ok ([], None),
                   a\<lparr>a_effects := a_effects a @ [CommittedRecords rs, Logged SevDebug (MsgCommitted (length rs))]\<rparr>)
        | Some err \<Rightarrow>
            (Ok ([], Some (WrapError ''commit records failed: '' err)),
             a\<lparr>a_effects := a_effects a @ [CommittedRecords rs, Logged SevError (MsgCommitFailed err)] @
                 (if membership_lost env err
                  then [Logged SevWarn (MsgMembershipLost (currentSessionTimeoutDescription env a))]
                  else [])\<rparr>)))"
proof -
  obtain h where h: "a_commitRecordsFn a = Some h" using assms(2) by blast
  have "length (map (\<lambda>r. \<lparr>m_Payload = Some r\<rparr>) rs) \<noteq> 0" if "rs \<noteq> []" using that by simp
  with assms(1) h show ?thesis
    by (auto simp: CommitOffsets_def go_bind_logf hint_app
        go_bind_app [of "logGroupMembershipHintIfApplicable env e" for e]
        split: option.split simp del: not_None_eq)
qed

definition unknown_member :: go_error where
  "unknown_member = KafkaError 1 25 ''UNKNOWN_MEMBER_ID''"

definition evicted_env :: commit_env where
  "evicted_env = \<lparr>ce_commitRecords = (\<lambda>rs. Some (WrapError ''commit: '' unknown_member)),
                  ce_sessionTimeout = (\<lambda>_. Some (45 * Second)),
                  ce_UnknownMemberID = unknown_member,
                  ce_IllegalGeneration = KafkaError 2 22 ''ILLEGAL_GENERATION''\<rparr>"

theorem commit_offsets_spec_witness:
  "fst (CommitOffsets evicted_env [\<lparr>m_Payload = Some sample_record\<rparr>] (wired_adapter\<lparr>a_commitRecordsFn := Some 0\<rparr>)) =
     Ok ([], Some (WrapError ''commit records failed: '' (WrapError ''commit: '' unknown_member))) \<and>
   Logged SevWarn (MsgMembershipLost ''<unknown - client not initialised>'') \<in> set (a_effects
     (snd (CommitOffsets evicted_env [\<lparr>m_Payload = Some sample_record\<rparr>] (wired_adapter\<lparr>a_commitRecordsFn := Some 0\<rparr>))))"
proof -
  have "a_logger (wired_adapter\<lparr>a_commitRecordsFn := Some 0\<rparr>) \<noteq> None"
    "a_commitRecordsFn (wired_adapter\<lparr>a_commitRecordsFn := Some 0\<rparr>) \<noteq> None"
    by (simp_all add: wired_adapter_def NewCustom_def)
  from commit_offsets_spec [OF this, of evicted_env "[sample_record]"]
  show ?thesis
    by (simp add: evicted_env_def membership_lost_def currentSessionTimeoutDescription_def
        wired_adapter_def NewCustom_def)
qed

end
