(* ===== verification/Release.thy ===== *)
theory Release
  imports Broker_Port
begin

text \<open>
  Starting and releasing the broker (\<open>franzadapter/broker_port.go\<close>: \<open>Subscribe\<close>,
  \<open>startFetchLoop\<close>, \<open>Unsubscribe\<close>, \<open>releaseBroker\<close>). What the rest of the world decides during
  a release is a \<open>release_env\<close>: whether the fetch loop ends before the timer, and what the
  client answers to the leave request. Everything the release does to the outside is in the
  trace, so its order is a statement about lists.
\<close>

section \<open>Operations\<close>

abbreviation fetchLoopStopTimeout :: duration where "fetchLoopStopTimeout \<equiv> 10 * Second"
abbreviation leaveGroupTimeout :: duration where "leaveGroupTimeout \<equiv> 5 * Second"

record release_env =
  re_loopStops :: bool
  re_leaveGroup :: "go_error option"

text \<open>
  \<open>startFetchLoop\<close> creates the cancellable context (derived from \<open>a.ctx\<close>) and the three channels,
  and launches the goroutine. A context derived from a cancelled one is cancelled already:
  the argument says whether \<open>a.ctx\<close> is.
\<close>

definition startFetchLoop :: "bool \<Rightarrow> (adapter, unit) go" where
  "startFetchLoop ctxDone =
     go_bind (go_modify (\<lambda>a. a\<lparr>a_fetchCancelled := (a_ctx a \<noteq> None \<and> ctxDone), a_fetchCancel := True,
                               a_fetchedRecords := ChanOpen, a_recordDispatched := ChanOpen,
                               a_fetchLoopDone := ChanOpen\<rparr>)) (\<lambda>_.
     perform StartedFetchLoop)"

definition startOnce :: "bool \<Rightarrow> (adapter, unit) go" where
  "startOnce ctxDone =
     (\<lambda>a. if a_fetchStart a then (Ok (), a)
          else startFetchLoop ctxDone (a\<lparr>a_fetchStart := True\<rparr>))"

definition Subscribe :: "bool \<Rightarrow> (adapter, go_error option) go" where
  "Subscribe ctxDone =
     (\<lambda>a. go_bind (go_when (a_pollRecordsFn a \<noteq> None) (startOnce ctxDone)) (\<lambda>_.
          go_bind (logf SevInfo (MsgSubscribed (a_topicName a))) (\<lambda>_.
          go_return None)) a)"

definition stopCollector :: "(adapter, unit) go" where
  "stopCollector =
     (\<lambda>a. case a_bwCollector a of
        None \<Rightarrow> (Ok (), a)
      | Some bc \<Rightarrow> go_bind (go_modify (\<lambda>a. a\<lparr>a_bwCollector := Some (stop bc)\<rparr>)) (\<lambda>_.
                   perform StoppedCollector) a)"

definition stopFetching :: "release_env \<Rightarrow> (adapter, unit) go" where
  "stopFetching env =
     (\<lambda>a. if \<not> a_fetchCancel a then (Ok (), a)
          else go_bind (go_modify (\<lambda>a. a\<lparr>a_fetchCancelled := True\<rparr>)) (\<lambda>_.
               go_bind (perform CancelledFetch) (\<lambda>_.
               if re_loopStops env then logf_if_set SevInfo MsgFetchLoopStopped
               else logf SevWarn (MsgFetchLoopNotStopped fetchLoopStopTimeout))) a)"

definition leaveGroup :: "release_env \<Rightarrow> (adapter, unit) go" where
  "leaveGroup env =
     (\<lambda>a. if a_leaveGroupFn a = None then (Ok (), a)
          else go_bind (perform (LeftGroup (re_leaveGroup env))) (\<lambda>_.
               case re_leaveGroup env of
                 None \<Rightarrow> logf_if_set SevInfo MsgLeftGroup
               | Some err \<Rightarrow>
                   if errors_Is err DeadlineExceeded then logf SevWarn (MsgLeaveInFlight leaveGroupTimeout)
                   else logf SevWarn (MsgLeaveFailed err)) a)"

definition closeClient :: "(adapter, unit) go" where
  "closeClient =
     (\<lambda>a. case a_closeFn a of
        None \<Rightarrow> (Ok (), a)
      | Some cl \<Rightarrow> go_bind (logf_if_set SevInfo MsgClosingClient) (\<lambda>_.
                   go_bind (perform (ClosedClient cl)) (\<lambda>_.
                   logf_if_set SevInfo MsgClientClosed)) a)"

definition releaseBroker :: "release_env \<Rightarrow> (adapter, unit) go" where
  "releaseBroker env =
     go_bind stopCollector (\<lambda>_.
     go_bind (stopFetching env) (\<lambda>_.
     go_bind (leaveGroup env) (\<lambda>_.
     closeClient)))"

text \<open>\<open>sync.Once\<close> counts the call as done also when it panics.\<close>

definition Unsubscribe :: "release_env \<Rightarrow> (adapter, go_error option) go" where
  "Unsubscribe env =
     (\<lambda>a. if a_unsubscribeOnce a then (Ok None, a)
          else go_bind (releaseBroker env) (\<lambda>_. go_return None) (a\<lparr>a_unsubscribeOnce := True\<rparr>))"

section \<open>Effect of each step\<close>

lemma stopCollector_app:
  "stopCollector a = (Ok (), (case a_bwCollector a of None \<Rightarrow> a
     | Some bc \<Rightarrow> a\<lparr>a_bwCollector := Some (stop bc), a_effects := a_effects a @ [StoppedCollector]\<rparr>))"
  by (simp add: stopCollector_def split: option.splits)

definition stop_trace :: "release_env \<Rightarrow> adapter \<Rightarrow> effect list" where
  "stop_trace env a =
     (if a_fetchCancel a
      then [CancelledFetch, if re_loopStops env then Logged SevInfo MsgFetchLoopStopped
                            else Logged SevWarn (MsgFetchLoopNotStopped fetchLoopStopTimeout)]
      else [])"

definition leave_trace :: "release_env \<Rightarrow> adapter \<Rightarrow> effect list" where
  "leave_trace env a =
     (if a_leaveGroupFn a = None then []
      else [LeftGroup (re_leaveGroup env),
            case re_leaveGroup env of
              None \<Rightarrow> Logged SevInfo MsgLeftGroup
            | Some err \<Rightarrow> Logged SevWarn (if errors_Is err DeadlineExceeded
                                           then MsgLeaveInFlight leaveGroupTimeout else MsgLeaveFailed err)])"

definition close_trace :: "adapter \<Rightarrow> effect list" where
  "close_trace a =
     (case a_closeFn a of None \<Rightarrow> []
      | Some cl \<Rightarrow> [Logged SevInfo MsgClosingClient, ClosedClient cl, Logged SevInfo MsgClientClosed])"

definition collector_trace :: "adapter \<Rightarrow> effect list" where
  "collector_trace a = (if a_bwCollector a = None then [] else [StoppedCollector])"

definition release_trace :: "release_env \<Rightarrow> adapter \<Rightarrow> effect list" where
  "release_trace env a = collector_trace a @ stop_trace env a @ leave_trace env a @ close_trace a"

definition released :: "release_env \<Rightarrow> adapter \<Rightarrow> adapter" where
  "released env a =
     a\<lparr>a_bwCollector := map_option stop (a_bwCollector a),
       a_fetchCancelled := (a_fetchCancelled a \<or> a_fetchCancel a),
       a_effects := a_effects a @ release_trace env a\<rparr>"

lemma collected_app:
  "stopCollector a = (Ok (), a\<lparr>a_bwCollector := map_option stop (a_bwCollector a),
                               a_effects := a_effects a @ collector_trace a\<rparr>)"
  by (cases "a_bwCollector a") (simp_all add: stopCollector_app collector_trace_def)

lemma stopFetching_app:
  "a_logger a \<noteq> None \<Longrightarrow> stopFetching env a =
     (Ok (), a\<lparr>a_fetchCancelled := (a_fetchCancelled a \<or> a_fetchCancel a),
               a_effects := a_effects a @ stop_trace env a\<rparr>)"
  by (simp add: stopFetching_def stop_trace_def logf_app logf_if_set_app del: not_None_eq)

lemma leaveGroup_app:
  "a_logger a \<noteq> None \<Longrightarrow> leaveGroup env a =
     (Ok (), a\<lparr>a_effects := a_effects a @ leave_trace env a\<rparr>)"
  by (simp add: leaveGroup_def leave_trace_def logf_app logf_if_set_app split: option.split del: not_None_eq)

lemma closeClient_app:
  "a_logger a \<noteq> None \<Longrightarrow> closeClient a = (Ok (), a\<lparr>a_effects := a_effects a @ close_trace a\<rparr>)"
  by (simp add: closeClient_def close_trace_def go_bind_logf_if_set logf_if_set_app split: option.split
      del: not_None_eq)

lemma trace_fields [simp]:
  "stop_trace env (a\<lparr>a_effects := es\<rparr>) = stop_trace env a"
  "stop_trace env (a\<lparr>a_bwCollector := b\<rparr>) = stop_trace env a"
  "leave_trace env (a\<lparr>a_effects := es\<rparr>) = leave_trace env a"
  "leave_trace env (a\<lparr>a_bwCollector := b\<rparr>) = leave_trace env a"
  "leave_trace env (a\<lparr>a_fetchCancelled := x\<rparr>) = leave_trace env a"
  "close_trace (a\<lparr>a_effects := es\<rparr>) = close_trace a"
  "close_trace (a\<lparr>a_bwCollector := b\<rparr>) = close_trace a"
  "close_trace (a\<lparr>a_fetchCancelled := x\<rparr>) = close_trace a"
  by (simp_all add: stop_trace_def leave_trace_def close_trace_def)

lemma releaseBroker_app:
  "a_logger a \<noteq> None \<Longrightarrow> releaseBroker env a = (Ok (), released env a)"
  by (simp add: releaseBroker_def go_bind_app collected_app stopFetching_app leaveGroup_app closeClient_app
      released_def release_trace_def del: not_None_eq)

interpretation release_once: once_guard a_unsubscribeOnce "\<lambda>env a. snd (Unsubscribe env a)"
proof
  fix env a
  have "keeps (\<lambda>a b. a_unsubscribeOnce a \<longrightarrow> a_unsubscribeOnce b) (releaseBroker env)"
    unfolding releaseBroker_def
    by (intro keeps_bind transpI)
      (auto simp: keeps_def collected_app stopFetching_def leaveGroup_def closeClient_def
        go_bind_logf_if_set logf_if_set_app logf_app split: option.split)
  from keepsD [OF this, of "a\<lparr>a_unsubscribeOnce := True\<rparr>"]
  show "a_unsubscribeOnce (snd (Unsubscribe env a))"
    by (auto simp: Unsubscribe_def go_bind_app split: prod.split outcome.split)
qed (simp add: Unsubscribe_def)

interpretation start_once: once_guard a_fetchStart "\<lambda>ctxDone a. snd (startOnce ctxDone a)"
  by unfold_locales (simp_all add: startOnce_def startFetchLoop_def)

section \<open>Properties\<close>

text \<open>The calls of a release that reach the client or the goroutines, logging aside.\<close>

fun release_call :: "effect \<Rightarrow> bool" where
  "release_call (Logged sev m) = False"
| "release_call e = True"

abbreviation unsubscribe_all :: "release_env list \<Rightarrow> adapter \<Rightarrow> adapter" where
  "unsubscribe_all envs a \<equiv> fold (\<lambda>env a. snd (Unsubscribe env a)) envs a"

lemma Unsubscribe_first:
  "a_logger a \<noteq> None \<Longrightarrow> \<not> a_unsubscribeOnce a \<Longrightarrow>
   Unsubscribe env a = (Ok None, released env (a\<lparr>a_unsubscribeOnce := True\<rparr>))"
  by (simp add: Unsubscribe_def go_bind_app releaseBroker_app del: not_None_eq)

lemma release_trace_once [simp]: "release_trace env (a\<lparr>a_unsubscribeOnce := x\<rparr>) = release_trace env a"
  by (simp add: release_trace_def collector_trace_def stop_trace_def leave_trace_def close_trace_def)

text \<open>
  C9. However often and from wherever \<open>Unsubscribe\<close> is called, the release runs once, under the
  conditions the first caller met: stop the telemetry collector, cancel the fetch loop, leave the
  group, close the client, in this order. The close happens whether or not the loop ended in time and
  whatever the leave answered, and afterwards the fetch context is cancelled.
\<close>

theorem release_once_in_order:
  assumes "a_logger a \<noteq> None" and "\<not> a_unsubscribeOnce a"
  shows "fst (Unsubscribe env a) = Ok None \<and>
    (\<exists>new. a_effects (unsubscribe_all (env # envs) a) = a_effects a @ new \<and>
       filter release_call new =
         (if a_bwCollector a = None then [] else [StoppedCollector]) @
         (if a_fetchCancel a then [CancelledFetch] else []) @
         (if a_leaveGroupFn a = None then [] else [LeftGroup (re_leaveGroup env)]) @
         (case a_closeFn a of None \<Rightarrow> [] | Some cl \<Rightarrow> [ClosedClient cl])) \<and>
    (a_fetchCancel a \<longrightarrow> a_fetchCancelled (unsubscribe_all (env # envs) a))"
proof -
  have all: "unsubscribe_all (env # envs) a = released env (a\<lparr>a_unsubscribeOnce := True\<rparr>)"
    using release_once.only_first_call_counts [of env envs a] Unsubscribe_first [OF assms, of env] by simp
  have "filter release_call (release_trace env a) =
         (if a_bwCollector a = None then [] else [StoppedCollector]) @
         (if a_fetchCancel a then [CancelledFetch] else []) @
         (if a_leaveGroupFn a = None then [] else [LeftGroup (re_leaveGroup env)]) @
         (case a_closeFn a of None \<Rightarrow> [] | Some cl \<Rightarrow> [ClosedClient cl])"
    by (simp add: release_trace_def collector_trace_def stop_trace_def leave_trace_def close_trace_def
        split: option.split)
  then show ?thesis
    unfolding all using Unsubscribe_first [OF assms, of env]
    by (intro conjI exI [of _ "release_trace env a"]) (simp_all add: released_def)
qed

definition subscribed_adapter :: adapter where
  "subscribed_adapter =
     wired_adapter\<lparr>a_fetchCancel := True, a_leaveGroupFn := Some 5, a_closeFn := Some 5, a_pollRecordsFn := Some 5\<rparr>"

definition stuck_release :: release_env where
  "stuck_release = \<lparr>re_loopStops = False, re_leaveGroup = Some DeadlineExceeded\<rparr>"

theorem release_once_in_order_witness:
  "\<exists>new. a_effects (unsubscribe_all [stuck_release, stuck_release] subscribed_adapter) = new \<and>
         filter release_call new = [CancelledFetch, LeftGroup (Some DeadlineExceeded), ClosedClient 5]"
proof -
  have "a_logger subscribed_adapter \<noteq> None" "\<not> a_unsubscribeOnce subscribed_adapter"
    by (simp_all add: subscribed_adapter_def wired_adapter_def NewCustom_def)
  from release_once_in_order [OF this, of stuck_release "[stuck_release]"] show ?thesis
    by (simp add: subscribed_adapter_def wired_adapter_def NewCustom_def stuck_release_def)
qed

text \<open>The same steps on an adapter whose logger was never set.\<close>

lemma releaseBroker_nil_logger:
  assumes "a_logger a = None" and "a_leaveGroupFn a \<noteq> None" and "a_closeFn a = Some cl"
  shows "\<exists>new. a_effects (snd (releaseBroker env a)) = a_effects a @ new \<and>
    (panics (releaseBroker env a) \<longleftrightarrow> a_fetchCancel a \<and> \<not> re_loopStops env \<or> re_leaveGroup env \<noteq> None) \<and>
    (ClosedClient cl \<in> set new \<longleftrightarrow> \<not> panics (releaseBroker env a))"
  using assms
  by (cases "re_leaveGroup env"; cases "re_loopStops env")
    (simp_all add: releaseBroker_def go_bind_app collected_app stopFetching_def leaveGroup_def closeClient_def
      logf_app logf_if_set_app collector_trace_def del: not_None_eq)

text \<open>
  C33. Two of the three outcomes of the fetch-loop wait and the leave are logged without asking
  whether a logger is set. On an adapter that has a client but no logger yet, a release closes
  the client only when the loop stops in time and the leave succeeds; otherwise it panics before
  the close, and since the release counts as done, no later call closes the client either.
\<close>

theorem release_without_logger:
  assumes "a_logger a = None" and "\<not> a_unsubscribeOnce a"
    and "a_leaveGroupFn a \<noteq> None" and "a_closeFn a = Some cl"
  shows "(panics (Unsubscribe env a) \<longleftrightarrow> a_fetchCancel a \<and> \<not> re_loopStops env \<or> re_leaveGroup env \<noteq> None) \<and>
    (\<exists>new. a_effects (unsubscribe_all (env # envs) a) = a_effects a @ new \<and>
           (ClosedClient cl \<in> set new \<longleftrightarrow> \<not> panics (Unsubscribe env a)))"
proof -
  let ?a = "a\<lparr>a_unsubscribeOnce := True\<rparr>"
  have r: "\<exists>new. a_effects (snd (releaseBroker env ?a)) = a_effects a @ new \<and>
    (panics (releaseBroker env ?a) \<longleftrightarrow> a_fetchCancel a \<and> \<not> re_loopStops env \<or> re_leaveGroup env \<noteq> None) \<and>
    (ClosedClient cl \<in> set new \<longleftrightarrow> \<not> panics (releaseBroker env ?a))"
    using releaseBroker_nil_logger [of ?a cl env] assms by simp
  have u: "panics (Unsubscribe env a) = panics (releaseBroker env ?a)"
    "snd (Unsubscribe env a) = snd (releaseBroker env ?a)"
    using assms(2)
    by (auto simp: Unsubscribe_def go_bind_app panics_def split: prod.splits outcome.splits)
  show ?thesis
    unfolding release_once.only_first_call_counts u using r by auto
qed

theorem release_without_logger_witness:
  "panics (Unsubscribe stuck_release (NewCustom\<lparr>a_leaveGroupFn := Some 5, a_closeFn := Some 5\<rparr>))"
proof -
  let ?a = "NewCustom\<lparr>a_leaveGroupFn := Some 5, a_closeFn := Some 5\<rparr>"
  have "a_logger ?a = None" "\<not> a_unsubscribeOnce ?a" "a_leaveGroupFn ?a \<noteq> None" "a_closeFn ?a = Some 5"
    by (simp_all add: NewCustom_def)
  from release_without_logger [OF this, of stuck_release] show ?thesis
    by (simp add: stuck_release_def)
qed

abbreviation subscribe_all :: "bool list \<Rightarrow> adapter \<Rightarrow> adapter" where
  "subscribe_all ds a \<equiv> fold (\<lambda>d a. snd (Subscribe d a)) ds a"

lemma Subscribe_app:
  "a_logger a \<noteq> None \<Longrightarrow> Subscribe d a =
     (let a' = (if a_pollRecordsFn a \<noteq> None then snd (startOnce d a) else a)
      in (Ok None, a'\<lparr>a_effects := a_effects a' @ [Logged SevInfo (MsgSubscribed (a_topicName a))]\<rparr>))"
  by (simp add: Subscribe_def go_bind_app [of "go_when b m" for b m] go_when_app startOnce_def
      startFetchLoop_def go_bind_logf Let_def del: not_None_eq)

lemma started_count:
  "a_logger a \<noteq> None \<Longrightarrow> a_fetchStart a \<or> a_pollRecordsFn a = None \<Longrightarrow>
   count_list (a_effects (subscribe_all ds a)) StartedFetchLoop = count_list (a_effects a) StartedFetchLoop \<and>
   a_fetchLoopDone (subscribe_all ds a) = a_fetchLoopDone a \<and>
   a_fetchCancelled (subscribe_all ds a) = a_fetchCancelled a"
proof (induction ds arbitrary: a)
  case (Cons d ds)
  have "snd (Subscribe d a) = a\<lparr>a_effects := a_effects a @ [Logged SevInfo (MsgSubscribed (a_topicName a))]\<rparr>"
    using Cons.prems by (auto simp: Subscribe_app start_once.fired_idle Let_def)
  with Cons show ?case by simp
qed simp

text \<open>
  C27. However often \<open>Subscribe\<close> is called, it succeeds and starts the fetch loop exactly once:
  the first call on an adapter with a client creates the loop's channels and its context, and no
  later call touches them.
\<close>

theorem subscribe_starts_loop_once:
  assumes "a_logger a \<noteq> None" and "a_pollRecordsFn a \<noteq> None" and "\<not> a_fetchStart a"
    and "StartedFetchLoop \<notin> set (a_effects a)"
  shows "fst (Subscribe d a) = Ok None \<and>
    count_list (a_effects (subscribe_all (d # ds) a)) StartedFetchLoop = 1 \<and>
    a_fetchLoopDone (subscribe_all (d # ds) a) = ChanOpen \<and>
    a_fetchCancelled (subscribe_all (d # ds) a) = (a_ctx a \<noteq> None \<and> d)"
proof -
  let ?a1 = "snd (Subscribe d a)"
  have s: "Subscribe d a = (Ok None, ?a1)" and e1: "a_logger ?a1 \<noteq> None" "a_fetchStart ?a1"
    "a_effects ?a1 = a_effects a @ [StartedFetchLoop, Logged SevInfo (MsgSubscribed (a_topicName a))]"
    "a_fetchLoopDone ?a1 = ChanOpen" "a_fetchCancelled ?a1 = (a_ctx a \<noteq> None \<and> d)"
    using assms(1,2,3)
    by (simp_all add: Subscribe_app startOnce_def startFetchLoop_def Let_def del: not_None_eq)
  have "count_list (a_effects a) StartedFetchLoop = 0" using assms(4) by (simp add: count_notin)
  then have "count_list (a_effects ?a1) StartedFetchLoop = 1" by (simp add: e1(3))
  with started_count [OF e1(1) disjI1 [OF e1(2)], of ds] e1(4,5)
  have "count_list (a_effects (subscribe_all ds ?a1)) StartedFetchLoop = 1 \<and>
    a_fetchLoopDone (subscribe_all ds ?a1) = ChanOpen \<and>
    a_fetchCancelled (subscribe_all ds ?a1) = (a_ctx a \<noteq> None \<and> d)"
    by (simp only:)
  moreover have "subscribe_all (d # ds) a = subscribe_all ds ?a1" by simp
  moreover have "fst (Subscribe d a) = Ok None" by (subst s) simp
  ultimately show ?thesis by (simp only:)
qed

theorem subscribe_starts_loop_once_witness:
  "count_list (a_effects (subscribe_all [False, True] subscribed_adapter)) StartedFetchLoop = 1"
proof -
  have "a_logger subscribed_adapter \<noteq> None" "a_pollRecordsFn subscribed_adapter \<noteq> None"
    "\<not> a_fetchStart subscribed_adapter" "StartedFetchLoop \<notin> set (a_effects subscribed_adapter)"
    by (simp_all add: subscribed_adapter_def wired_adapter_def NewCustom_def)
  from subscribe_starts_loop_once [OF this, of False "[True]"] show ?thesis by simp
qed

end
