(* ===== verification/Polling.thy ===== *)
theory Polling
  imports Release
begin

text \<open>
  The engine's side of record delivery: \<open>Poll\<close> (\<open>franzadapter/broker_port.go\<close>). A call runs in
  three stages between which the polling goroutine may wait: the dispatch signal, the stash or
  the receive, and the pending rebalances followed by the return. Each stage is a definition of
  its own, so that the two-goroutine model of \<open>Gate\<close> can interleave them; \<open>Poll\<close> composes them
  for one call, with what the channel delivers as an argument.
\<close>

section \<open>Operations\<close>

type_synonym poll_result = "kgo_record option \<times> bool \<times> go_error option"

datatype receive = Received kgo_record | LoopExited | TimedOut

definition clientClosed :: go_error where
  "clientClosed = OtherError 0 ''client closed''"

text \<open>The head of the call: consume the flag; whether the dispatch signal has to be sent.\<close>

definition pollSignal :: "adapter \<Rightarrow> bool \<times> adapter" where
  "pollSignal a = (a_recordAwaitingDispatch a, a\<lparr>a_recordAwaitingDispatch := False\<rparr>)"

text \<open>The stash, taken out of its field.\<close>

definition pollStash :: "adapter \<Rightarrow> kgo_record option \<times> adapter" where
  "pollStash a = (a_pendingRecord a, a\<lparr>a_pendingRecord := None\<rparr>)"

text \<open>
  Pending rebalances, then the return: the stash is filled when they fail, the flag is set when a
  record is returned. Both the stashed and the received record end this way.
\<close>

definition pollFinish ::
  "rebalance_env \<Rightarrow> assignment list \<Rightarrow> kgo_record option \<Rightarrow> (adapter, poll_result) go" where
  "pollFinish env queued record =
     go_bind (processPendingRebalances env queued) (\<lambda>err.
       case err of
         Some e \<Rightarrow> go_bind (go_modify (\<lambda>a. a\<lparr>a_pendingRecord := record\<rparr>)) (\<lambda>_.
                   go_return (None, False, Some e))
       | None \<Rightarrow>
           (case record of
              Some r \<Rightarrow> go_bind (go_modify (\<lambda>a. a\<lparr>a_recordAwaitingDispatch := True\<rparr>)) (\<lambda>_.
                        go_return (Some r, True, None))
            | None \<Rightarrow> go_return (None, False, None)))"

definition Poll ::
  "rebalance_env \<Rightarrow> assignment list \<Rightarrow> receive \<Rightarrow> (adapter, poll_result) go" where
  "Poll env queued rcv =
     (\<lambda>a. if a_pollRecordsFn a = None then (Ok (None, False, Some clientClosed), a)
          else (case pollStash (snd (pollSignal a)) of
                  (Some r, a1) \<Rightarrow> pollFinish env queued (Some r) a1
                | (None, a1) \<Rightarrow>
                    (case rcv of
                       LoopExited \<Rightarrow> (Ok (None, False, Some clientClosed), a1)
                     | Received r \<Rightarrow> pollFinish env queued (Some r) a1
                     | TimedOut \<Rightarrow> pollFinish env queued None a1)))"

section \<open>Frames\<close>

text \<open>
  The fields of the gate protocol that neither the pending rebalances, nor a rebalance callback,
  nor a fetch changes.
\<close>

definition gate_frame :: "adapter \<Rightarrow> adapter \<Rightarrow> bool" where
  "gate_frame a b \<longleftrightarrow>
     a_pendingRecord b = a_pendingRecord a \<and> a_recordAwaitingDispatch b = a_recordAwaitingDispatch a \<and>
     a_fetchCancelled b = a_fetchCancelled a \<and> a_fetchedRecords b = a_fetchedRecords a \<and>
     a_fetchLoopDone b = a_fetchLoopDone a \<and> a_pollRecordsFn b = a_pollRecordsFn a \<and>
     a_logger b = a_logger a \<and> a_ctx b = a_ctx a \<and> a_adaptedConsumer b = a_adaptedConsumer a \<and>
     (a_bailOnce a \<longrightarrow> a_bailOnce b)"

lemma reflp_gate_frame [simp, intro]: "reflp gate_frame"
  by (simp add: reflpI gate_frame_def)

lemma transp_gate_frame [simp, intro]: "transp gate_frame"
  by (rule transpI) (simp add: gate_frame_def)

lemma gate_frame_refl [simp]: "gate_frame a a"
  by (simp add: gate_frame_def)

lemma fetch_gate_frame: "fetch_frame a b \<Longrightarrow> gate_frame a b"
  by (simp add: fetch_frame_def gate_frame_def)

lemma effects_gate_frame: "only_effects a b \<Longrightarrow> gate_frame a b"
  by (auto simp: only_effects_def gate_frame_def)

lemma gate_frame_pending [simp]:
  "gate_frame a (b\<lparr>a_pendingAssigned := m\<rparr>) = gate_frame a b"
  "gate_frame (a\<lparr>a_pendingAssigned := m\<rparr>) b = gate_frame a b"
  by (simp_all add: gate_frame_def)

lemma gate_frame_OnAssigned [simp]: "gate_frame a (OnAssigned m a)"
  by (simp add: OnAssigned_def)

lemma gate_frame_queued: "gate_frame a (fold OnAssigned ms a)"
  by (induction ms arbitrary: a) (auto intro: transpD [OF transp_gate_frame gate_frame_OnAssigned])

lemma keeps_gate_effects: "keeps only_effects m \<Longrightarrow> keeps gate_frame m"
  by (simp add: keeps_def effects_gate_frame)

lemma keeps_triggerAssign: "keeps only_effects (triggerAssign env m)"
proof -
  have l: "keeps only_effects (lookupAssignmentOffsets env m)"
  proof -
    have "keeps only_effects (go_bind (perform e) (\<lambda>_. case x of
        Inl err \<Rightarrow> go_bind (logf SevWarn (MsgLookupFailed err)) (\<lambda>_. go_return [])
      | Inr committed \<Rightarrow> go_return committed))" for e x
      by (intro keeps_bind) (auto intro!: keeps_bind split: sum.split)
    then show ?thesis
      unfolding keeps_def lookupAssignmentOffsets_def Let_def by (simp, blast)
  qed
  have "keeps only_effects (go_bind (lookupAssignmentOffsets env m) (\<lambda>c.
      go_bind (logf SevInfo (MsgAssigned m)) (\<lambda>_. go_bind (perform (e c)) (\<lambda>_. go_return (f c)))))" for e f
    by (intro keeps_bind l) auto
  note f = this [unfolded keeps_def, rule_format]
  show ?thesis
    unfolding keeps_def triggerAssign_def Let_def
    by (intro allI) (simp only: if_distrib [of snd] split: if_split, intro conjI impI; (rule f | simp only: only_effects_refl snd_conv))
qed

lemma keeps_gate_process [simp, intro]: "keeps gate_frame (processPendingRebalances env queued)"
proof -
  have m: "keeps gate_frame (go_modify (fold OnAssigned queued))"
    "keeps gate_frame (go_modify (requeuePending m))" for m
    by (rule keeps_modify, rule gate_frame_queued) (rule keeps_modify, simp add: requeuePending_def)
  have k: "keeps gate_frame (go_bind (triggerAssign env m) (\<lambda>err.
      go_bind (go_modify (fold OnAssigned queued)) (\<lambda>_.
      case err of None \<Rightarrow> go_return None
      | Some e \<Rightarrow> go_bind (go_modify (requeuePending m)) (\<lambda>_. go_return (Some e)))))" for m
    by (intro keeps_bind keeps_gate_effects [OF keeps_triggerAssign] m)
      (auto intro!: keeps_bind m split: option.split)
  have "gate_frame a (snd (processPendingRebalances env queued a))" for a
    using k [of "a_pendingAssigned a", unfolded keeps_def, rule_format, of "a\<lparr>a_pendingAssigned := []\<rparr>"]
    by (simp add: processPendingRebalances_def takePending_def gate_frame_queued)
  then show ?thesis by (simp add: keeps_def)
qed

lemma wired_gate_frame: "gate_frame a b \<Longrightarrow> wired b = wired a"
  by (simp add: gate_frame_def wired_def)

section \<open>One call and a run of calls\<close>

lemma pollFinish_wired:
  assumes "wired a"
  shows "\<exists>err a'. processPendingRebalances env queued a = (Ok err, a') \<and> gate_frame a a' \<and>
    pollFinish env queued record a =
      (case err of
         Some e \<Rightarrow> (Ok (None, False, Some e), a'\<lparr>a_pendingRecord := record\<rparr>)
       | None \<Rightarrow> (case record of
                    Some r \<Rightarrow> (Ok (Some r, True, None), a'\<lparr>a_recordAwaitingDispatch := True\<rparr>)
                  | None \<Rightarrow> (Ok (None, False, None), a')))"
proof -
  obtain err a' where p: "processPendingRebalances env queued a = (Ok err, a')"
    using process_wired [OF assms, of env queued] by (auto simp: Let_def split: option.splits if_splits)
  moreover have "gate_frame a a'" using keepsD [OF keeps_gate_process p] .
  ultimately show ?thesis by (simp add: pollFinish_def go_bind_app split: option.split)
qed

text \<open>The record a call has to account for: the stashed one, otherwise the received one.\<close>

definition in_hand :: "receive \<Rightarrow> adapter \<Rightarrow> kgo_record option" where
  "in_hand rcv a =
     (case a_pendingRecord a of
        Some r \<Rightarrow> Some r
      | None \<Rightarrow> (case rcv of Received r \<Rightarrow> Some r | _ \<Rightarrow> None))"

lemma Poll_eq:
  assumes "a_pollRecordsFn a \<noteq> None"
  shows "Poll env queued rcv a =
    (if a_pendingRecord a = None \<and> rcv = LoopExited
     then (Ok (None, False, Some clientClosed), a\<lparr>a_recordAwaitingDispatch := False, a_pendingRecord := None\<rparr>)
     else pollFinish env queued (in_hand rcv a) (a\<lparr>a_recordAwaitingDispatch := False, a_pendingRecord := None\<rparr>))"
  using assms
  by (cases "a_pendingRecord a"; cases rcv) (auto simp: Poll_def pollSignal_def pollStash_def in_hand_def)

text \<open>
  C10. A call of \<open>Poll\<close> never loses a record. The stash goes before the channel. If the pending
  rebalances went through, the record in hand is returned, and exactly then the call marks it as
  awaiting dispatch; if they failed, the error is returned and the record stays in the stash. The call
  reports a closed client exactly when there is no stash and the fetch loop has ended.
\<close>

theorem poll_accounts_for_record:
  assumes "wired a" and "a_pollRecordsFn a \<noteq> None"
  shows "\<exists>rec ok err a'. Poll env queued rcv a = (Ok (rec, ok, err), a') \<and> (ok \<longleftrightarrow> rec \<noteq> None) \<and>
    (if a_pendingRecord a = None \<and> rcv = LoopExited
     then rec = None \<and> err = Some clientClosed \<and> a_pendingRecord a' = None \<and> \<not> a_recordAwaitingDispatch a'
     else if err = None
     then rec = in_hand rcv a \<and> a_pendingRecord a' = None \<and> (a_recordAwaitingDispatch a' \<longleftrightarrow> rec \<noteq> None)
     else rec = None \<and> a_pendingRecord a' = in_hand rcv a \<and> \<not> a_recordAwaitingDispatch a')"
proof -
  let ?a1 = "a\<lparr>a_recordAwaitingDispatch := False, a_pendingRecord := None\<rparr>"
  have w: "wired ?a1" using assms(1) by (simp add: wired_def)
  have fin: "\<exists>rec ok err a'. pollFinish env queued r ?a1 = (Ok (rec, ok, err), a') \<and> (ok \<longleftrightarrow> rec \<noteq> None) \<and>
    (if err = None
     then rec = r \<and> a_pendingRecord a' = None \<and> (a_recordAwaitingDispatch a' \<longleftrightarrow> rec \<noteq> None)
     else rec = None \<and> a_pendingRecord a' = r \<and> \<not> a_recordAwaitingDispatch a')" for r
  proof -
    obtain err a' where "gate_frame ?a1 a'" and f: "pollFinish env queued r ?a1 =
        (case err of
           Some e \<Rightarrow> (Ok (None, False, Some e), a'\<lparr>a_pendingRecord := r\<rparr>)
         | None \<Rightarrow> (case r of
                      Some x \<Rightarrow> (Ok (Some x, True, None), a'\<lparr>a_recordAwaitingDispatch := True\<rparr>)
                    | None \<Rightarrow> (Ok (None, False, None), a')))"
      using pollFinish_wired [OF w, of env queued r] by blast
    then have "a_pendingRecord a' = None" "\<not> a_recordAwaitingDispatch a'" by (simp_all add: gate_frame_def)
    then show ?thesis unfolding f by (cases err; cases r) simp_all
  qed
  show ?thesis
  proof (cases "a_pendingRecord a = None \<and> rcv = LoopExited")
    case True
    then show ?thesis unfolding Poll_eq [OF assms(2)] by simp
  next
    case False
    show ?thesis unfolding Poll_eq [OF assms(2)] if_not_P [OF False] by (rule fin)
  qed
qed

definition queued_adapter :: adapter where
  "queued_adapter = wired_adapter\<lparr>a_pollRecordsFn := Some 5, a_pendingAssigned := [(''orders'', [0])]\<rparr>"

theorem poll_accounts_for_record_witness:
  "a_pendingRecord (snd (Poll refusing_env [] (Received sample_record) queued_adapter)) = Some sample_record"
proof -
  have "wired queued_adapter" "a_pollRecordsFn queued_adapter \<noteq> None" "a_pendingRecord queued_adapter = None"
    by (simp_all add: queued_adapter_def wired_def wired_adapter_def NewCustom_def)
  moreover have "fst (Poll refusing_env [] (Received sample_record) queued_adapter) \<noteq> Ok (rec, ok, None)" for rec ok
    using calculation process_wired [OF calculation(1), of refusing_env "[]"]
    by (simp add: Poll_def pollSignal_def pollStash_def pollFinish_def go_bind_app process_wired wired_def
        assign_error_def queued_adapter_def wired_adapter_def Let_def)
  ultimately show ?thesis
    using poll_accounts_for_record [of queued_adapter refusing_env "[]" "Received sample_record"]
    by (fastforce simp: in_hand_def split: if_splits)
qed

text \<open>A run of calls, each with its own environment and its own luck at the channel.\<close>

type_synonym poll_call = "rebalance_env \<times> assignment list \<times> receive"

fun poll_calls :: "poll_call list \<Rightarrow> adapter \<Rightarrow> poll_result outcome list \<times> adapter" where
  "poll_calls [] a = ([], a)"
| "poll_calls ((env, queued, rcv) # cs) a =
     (case Poll env queued rcv a of
        (res, a1) \<Rightarrow> (case poll_calls cs a1 of (rs, a2) \<Rightarrow> (res # rs, a2)))"

fun failed_poll :: "poll_result outcome \<Rightarrow> bool" where
  "failed_poll (Ok (_, _, Some _)) = True"
| "failed_poll _ = False"

lemma Poll_stashed:
  assumes "wired a" and "a_pollRecordsFn a \<noteq> None" and "a_pendingRecord a = Some r"
  obtains "fst (Poll env queued rcv a) = Ok (Some r, True, None)"
  | e a' where "Poll env queued rcv a = (Ok (None, False, Some e), a')"
      "wired a'" "a_pollRecordsFn a' \<noteq> None" "a_pendingRecord a' = Some r"
proof -
  let ?a1 = "a\<lparr>a_recordAwaitingDispatch := False, a_pendingRecord := None\<rparr>"
  have "wired ?a1" using assms(1) by (simp add: wired_def)
  then obtain err a' where a': "gate_frame ?a1 a'" and f: "pollFinish env queued (Some r) ?a1 =
      (case err of
         Some e \<Rightarrow> (Ok (None, False, Some e), a'\<lparr>a_pendingRecord := Some r\<rparr>)
       | None \<Rightarrow> (Ok (Some r, True, None), a'\<lparr>a_recordAwaitingDispatch := True\<rparr>))"
    using pollFinish_wired [of ?a1 env queued "Some r", unfolded option.case(2)] by blast
  have p: "Poll env queued rcv a = pollFinish env queued (Some r) ?a1"
    using assms(3) by (simp add: Poll_eq [OF assms(2)] in_hand_def)
  have w: "wired (a'\<lparr>a_pendingRecord := Some r\<rparr>)" "a_pollRecordsFn a' \<noteq> None"
    using a' assms(1,2) by (simp_all add: gate_frame_def wired_def)
  show ?thesis
  proof (cases err)
    case None
    then show ?thesis using that(1) p f by simp
  next
    case (Some e)
    then show ?thesis using that(2) p f w by simp
  qed
qed

text \<open>
  C7. At-least-once across failing rebalances: a stashed record is what the first call returns
  that does not fail, however many calls fail before and whatever the channel offers meanwhile;
  as long as they all fail it stays in the stash.
\<close>

theorem stashed_record_is_delivered_next:
  assumes "wired a" and "a_pollRecordsFn a \<noteq> None" and "a_pendingRecord a = Some r"
  shows "case dropWhile failed_poll (fst (poll_calls calls a)) of
           [] \<Rightarrow> a_pendingRecord (snd (poll_calls calls a)) = Some r
         | res # _ \<Rightarrow> res = Ok (Some r, True, None)"
  using assms
proof (induction calls arbitrary: a)
  case (Cons c cs)
  obtain env queued rcv where c: "c = (env, queued, rcv)" by (cases c)
  from Cons.prems show ?case
  proof (cases rule: Poll_stashed [of a r env queued rcv])
    case 1
    then show ?thesis by (auto simp: c split: prod.split)
  next
    case (2 e a')
    obtain rs a2 where q: "poll_calls cs a' = (rs, a2)" by fastforce
    have p: "poll_calls (c # cs) a = (Ok (None, False, Some e) # rs, a2)"
      by (simp add: c 2(1) q)
    show ?thesis using Cons.IH [OF 2(2,3,4)] unfolding p q fst_conv snd_conv by simp
  qed
qed simp

theorem stashed_record_is_delivered_next_witness:
  "case dropWhile failed_poll (fst (poll_calls
      [(refusing_env, [], TimedOut), (refusing_env, [], TimedOut), (accepting_env, [], TimedOut)]
      (queued_adapter\<lparr>a_pendingRecord := Some sample_record\<rparr>))) of
     [] \<Rightarrow> a_pendingRecord (snd (poll_calls
        [(refusing_env, [], TimedOut), (refusing_env, [], TimedOut), (accepting_env, [], TimedOut)]
        (queued_adapter\<lparr>a_pendingRecord := Some sample_record\<rparr>))) = Some sample_record
   | res # _ \<Rightarrow> res = Ok (Some sample_record, True, None)"
proof (rule stashed_record_is_delivered_next)
qed (simp_all add: queued_adapter_def wired_def wired_adapter_def)

end
