(* ===== verification/Gate.thy ===== *)
theory Gate
  imports Polling
begin

text \<open>
  The gate protocol: the fetch goroutine (\<open>runFetchLoop\<close>), the engine's polling goroutine
  (\<open>Poll\<close>) and the client's rebalance callbacks, interleaved (\<open>franzadapter/broker_port.go\<close>,
  \<open>franzadapter/rebalance.go\<close>).

  Each goroutine has a program counter. Between two waiting points a goroutine runs a definition
  of the component theories in one step: it owns the fields it touches there, or holds the lock. A
  send and a receive on an unbuffered channel are one joint step. A panic ends the process, so
  there is no step for it.

  The kgo client is a parameter: when it may start a callback and when its \<open>PollRecords\<close> may
  return what, both as functions of the history of its calls and callbacks. \<open>kgo_contract\<close> is
  what its documentation promises under \<open>BlockRebalanceOnPoll\<close> and \<open>PollRecords(ctx, 1)\<close>.
\<close>

section \<open>The client\<close>

datatype client_event = EvPoll fetches | EvAllow | EvCallbackBegin | EvCallbackEnd

record kgo_client =
  may_callback :: "client_event list \<Rightarrow> bool"
  may_return :: "client_event list \<Rightarrow> fetches \<Rightarrow> bool"

text \<open>A poll that returned a record, with no \<open>AllowRebalance\<close> since; a callback under way.\<close>

fun shut_by :: "bool \<Rightarrow> client_event \<Rightarrow> bool" where
  "shut_by b (EvPoll f) = (b \<or> EachRecord f \<noteq> [])"
| "shut_by b EvAllow = False"
| "shut_by b EvCallbackBegin = b"
| "shut_by b EvCallbackEnd = b"

fun running_by :: "bool \<Rightarrow> client_event \<Rightarrow> bool" where
  "running_by b EvCallbackBegin = True"
| "running_by b EvCallbackEnd = False"
| "running_by b (EvPoll f) = b"
| "running_by b EvAllow = b"

definition gate_closed :: "client_event list \<Rightarrow> bool" where
  "gate_closed h = foldl shut_by False h"

definition callback_running :: "client_event list \<Rightarrow> bool" where
  "callback_running h = foldl running_by False h"

definition kgo_contract :: "kgo_client \<Rightarrow> bool" where
  "kgo_contract C \<longleftrightarrow>
     (\<forall>h. gate_closed h \<longrightarrow> \<not> may_callback C h) \<and>
     (\<forall>h f. callback_running h \<and> EachRecord f \<noteq> [] \<longrightarrow> \<not> may_return C h f) \<and>
     (\<forall>h f. may_return C h f \<longrightarrow> length (EachRecord f) \<le> 1)"

lemma gate_closed_simps [simp]:
  "\<not> gate_closed []"
  "gate_closed (h @ [EvPoll f]) \<longleftrightarrow> gate_closed h \<or> EachRecord f \<noteq> []"
  "\<not> gate_closed (h @ [EvAllow])"
  "gate_closed (h @ [EvCallbackBegin]) = gate_closed h"
  "gate_closed (h @ [EvCallbackEnd]) = gate_closed h"
  by (simp_all add: gate_closed_def)

lemma callback_running_simps [simp]:
  "\<not> callback_running []"
  "callback_running (h @ [EvPoll f]) = callback_running h"
  "callback_running (h @ [EvAllow]) = callback_running h"
  "callback_running (h @ [EvCallbackBegin])"
  "\<not> callback_running (h @ [EvCallbackEnd])"
  by (simp_all add: callback_running_def)

section \<open>States\<close>

datatype loop_pc =
    LPolling
  | LDeliver kgo_record
  | LAwaitDispatch
  | LAllow
  | LExit
  | LCloseRecords
  | LCloseDone
  | LDone

datatype poll_pc =
    PIdle
  | PSignal
  | PReceive
  | PFinish "kgo_record option"
  | PDispatch kgo_record

text \<open>
  The last three fields are ghosts: what the client handed to the loop, what the engine dispatched
  into its pipeline, and what the loop dropped on its way out.
\<close>

record gate_state =
  g_a :: adapter
  g_loop :: loop_pc
  g_poll :: poll_pc
  g_history :: "client_event list"
  g_fetched :: "kgo_record list"
  g_dispatched :: "kgo_record list"
  g_dropped :: "kgo_record list"

text \<open>The state in which \<open>Subscribe\<close> leaves a fresh adapter when it launches the goroutine.\<close>

definition gate_start :: "gate_state \<Rightarrow> bool" where
  "gate_start s \<longleftrightarrow>
     g_loop s = LPolling \<and> g_poll s = PIdle \<and> g_history s = [] \<and>
     g_fetched s = [] \<and> g_dispatched s = [] \<and> g_dropped s = [] \<and>
     a_pendingRecord (g_a s) = None \<and> \<not> a_recordAwaitingDispatch (g_a s) \<and>
     a_fetchedRecords (g_a s) = ChanOpen \<and> a_fetchLoopDone (g_a s) = ChanOpen"

section \<open>Steps\<close>

text \<open>\<open>runFetchLoop\<close>, with its three deferred calls in the order Go runs them.\<close>

inductive loop_step :: "kgo_client \<Rightarrow> gate_state \<Rightarrow> gate_state \<Rightarrow> bool" for C where
  fetch_exit:
    "g_loop s = LPolling \<Longrightarrow> may_return C (g_history s) f \<Longrightarrow>
     fetchNext now f (g_a s) = (Ok (rec, True), a') \<Longrightarrow>
     loop_step C s (s\<lparr>g_a := a', g_loop := LExit, g_history := g_history s @ [EvPoll f],
                      g_fetched := g_fetched s @ EachRecord f, g_dropped := g_dropped s @ EachRecord f\<rparr>)"
| fetch_none:
    "g_loop s = LPolling \<Longrightarrow> may_return C (g_history s) f \<Longrightarrow>
     fetchNext now f (g_a s) = (Ok (None, False), a') \<Longrightarrow>
     loop_step C s (s\<lparr>g_a := a', g_history := g_history s @ [EvPoll f],
                      g_fetched := g_fetched s @ EachRecord f\<rparr>)"
| fetch_record:
    "g_loop s = LPolling \<Longrightarrow> may_return C (g_history s) f \<Longrightarrow>
     fetchNext now f (g_a s) = (Ok (Some r, False), a') \<Longrightarrow>
     loop_step C s (s\<lparr>g_a := a', g_loop := LDeliver r, g_history := g_history s @ [EvPoll f],
                      g_fetched := g_fetched s @ EachRecord f\<rparr>)"
| deliver_cancelled:
    "g_loop s = LDeliver r \<Longrightarrow> a_fetchCancelled (g_a s) \<Longrightarrow>
     loop_step C s (s\<lparr>g_loop := LExit, g_dropped := g_dropped s @ [r]\<rparr>)"
| await_cancelled:
    "g_loop s = LAwaitDispatch \<Longrightarrow> a_fetchCancelled (g_a s) \<Longrightarrow>
     loop_step C s (s\<lparr>g_loop := LExit\<rparr>)"
| allow:
    "g_loop s = LAllow \<Longrightarrow>
     loop_step C s (s\<lparr>g_loop := LPolling, g_history := g_history s @ [EvAllow]\<rparr>)"
| exit_allow:
    "g_loop s = LExit \<Longrightarrow>
     loop_step C s (s\<lparr>g_loop := LCloseRecords, g_history := g_history s @ [EvAllow]\<rparr>)"
| exit_close_records:
    "g_loop s = LCloseRecords \<Longrightarrow>
     loop_step C s (s\<lparr>g_loop := LCloseDone, g_a := (g_a s)\<lparr>a_fetchedRecords := ChanClosed\<rparr>\<rparr>)"
| exit_close_done:
    "g_loop s = LCloseDone \<Longrightarrow>
     loop_step C s (s\<lparr>g_loop := LDone, g_a := (g_a s)\<lparr>a_fetchLoopDone := ChanClosed\<rparr>\<rparr>)"

text \<open>
  \<open>Poll\<close>, stage by stage. \<open>PDispatch r\<close> is the engine between the return of \<open>r\<close> and its next call.
\<close>

definition after_signal :: "gate_state \<Rightarrow> gate_state" where
  "after_signal s =
     (case pollStash (g_a s) of
        (Some r, a') \<Rightarrow> s\<lparr>g_a := a', g_poll := PFinish (Some r)\<rparr>
      | (None, a') \<Rightarrow> s\<lparr>g_a := a', g_poll := PReceive\<rparr>)"

inductive poll_step :: "gate_state \<Rightarrow> gate_state \<Rightarrow> bool" where
  poll_unset:
    "g_poll s = PIdle \<Longrightarrow> a_pollRecordsFn (g_a s) = None \<Longrightarrow> poll_step s s"
| poll_signals:
    "g_poll s = PIdle \<Longrightarrow> a_pollRecordsFn (g_a s) \<noteq> None \<Longrightarrow> pollSignal (g_a s) = (True, a') \<Longrightarrow>
     poll_step s (s\<lparr>g_a := a', g_poll := PSignal\<rparr>)"
| poll_plain:
    "g_poll s = PIdle \<Longrightarrow> a_pollRecordsFn (g_a s) \<noteq> None \<Longrightarrow> pollSignal (g_a s) = (False, a') \<Longrightarrow>
     poll_step s (after_signal (s\<lparr>g_a := a'\<rparr>))"
| signal_loop_gone:
    "g_poll s = PSignal \<Longrightarrow> a_fetchLoopDone (g_a s) = ChanClosed \<Longrightarrow> poll_step s (after_signal s)"
| receive_closed:
    "g_poll s = PReceive \<Longrightarrow> a_fetchedRecords (g_a s) = ChanClosed \<Longrightarrow> poll_step s (s\<lparr>g_poll := PIdle\<rparr>)"
| receive_timeout:
    "g_poll s = PReceive \<Longrightarrow> poll_step s (s\<lparr>g_poll := PFinish None\<rparr>)"
| finish:
    "g_poll s = PFinish rec \<Longrightarrow> pollFinish env queued rec (g_a s) = (Ok (res, ok, err), a') \<Longrightarrow>
     poll_step s (s\<lparr>g_a := a', g_poll := (case res of Some r \<Rightarrow> PDispatch r | None \<Rightarrow> PIdle)\<rparr>)"

text \<open>The two rendezvous on the unbuffered channels.\<close>

inductive sync_step :: "gate_state \<Rightarrow> gate_state \<Rightarrow> bool" where
  handover:
    "g_loop s = LDeliver r \<Longrightarrow> g_poll s = PReceive \<Longrightarrow>
     sync_step s (s\<lparr>g_loop := LAwaitDispatch, g_poll := PFinish (Some r)\<rparr>)"
| signal:
    "g_loop s = LAwaitDispatch \<Longrightarrow> g_poll s = PSignal \<Longrightarrow>
     sync_step s (after_signal (s\<lparr>g_loop := LAllow\<rparr>))"

text \<open>
  The rest of the world: the engine dispatches the record a call returned, synchronously, before
  it calls \<open>Poll\<close> again (its contract, documented on \<open>Poll\<close>); cancellation (\<open>Unsubscribe\<close>, or the
  consumer's context); and the client's callbacks, whose handlers are the operations of
  \<open>Rebalance\<close>.
\<close>

inductive env_step :: "kgo_client \<Rightarrow> gate_state \<Rightarrow> gate_state \<Rightarrow> bool" for C where
  dispatch:
    "g_poll s = PDispatch r \<Longrightarrow>
     env_step C s (s\<lparr>g_poll := PIdle, g_dispatched := g_dispatched s @ [r]\<rparr>)"
| cancel:
    "env_step C s (s\<lparr>g_a := (g_a s)\<lparr>a_fetchCancelled := True\<rparr>\<rparr>)"
| assigned:
    "may_callback C (g_history s) \<Longrightarrow>
     env_step C s (s\<lparr>g_a := OnAssigned m (g_a s), g_history := g_history s @ [EvCallbackBegin]\<rparr>)"
| revoked:
    "may_callback C (g_history s) \<Longrightarrow> OnRevoked env m (g_a s) = (Ok (), a') \<Longrightarrow>
     env_step C s (s\<lparr>g_a := a', g_history := g_history s @ [EvCallbackBegin]\<rparr>)"
| lost:
    "may_callback C (g_history s) \<Longrightarrow> OnLost env m (g_a s) = (Ok (), a') \<Longrightarrow>
     env_step C s (s\<lparr>g_a := a', g_history := g_history s @ [EvCallbackBegin]\<rparr>)"
| callback_end:
    "callback_running (g_history s) \<Longrightarrow>
     env_step C s (s\<lparr>g_history := g_history s @ [EvCallbackEnd]\<rparr>)"

definition gate_step :: "kgo_client \<Rightarrow> gate_state \<Rightarrow> gate_state \<Rightarrow> bool" where
  "gate_step C s t \<longleftrightarrow> loop_step C s t \<or> poll_step s t \<or> sync_step s t \<or> env_step C s t"

inductive_cases loop_stepE: "loop_step C s t"
inductive_cases poll_stepE: "poll_step s t"
inductive_cases sync_stepE: "sync_step s t"
inductive_cases env_stepE: "env_step C s t"

section \<open>What the parts guarantee\<close>

lemma fetchNext_None: "fetchNext now f a = (Ok (None, False), a') \<Longrightarrow> EachRecord f = []"
  by (auto simp: fetchNext_def Let_def go_bind_def split: if_splits list.splits prod.splits outcome.splits)

lemma fetchNext_Some: "fetchNext now f a = (Ok (Some r, False), a') \<Longrightarrow> \<exists>rs. EachRecord f = r # rs"
  by (auto simp: fetchNext_def Let_def go_bind_def split: if_splits list.splits prod.splits outcome.splits)

lemma fetchNext_frame: "fetchNext now f a = (res, a') \<Longrightarrow> gate_frame a a'"
  by (rule fetch_gate_frame) (rule keepsD [OF keeps_fetchNext])

lemma OnRevoked_frame: "OnRevoked env m a = (res, a') \<Longrightarrow> gate_frame a a'"
  by (rule effects_gate_frame) (rule keepsD [OF keeps_OnRevoked])

lemma OnLost_frame: "OnLost env m a = (res, a') \<Longrightarrow> gate_frame a a'"
  by (simp add: OnLost_def OnRevoked_frame)

lemma pollFinish_cases:
  assumes "pollFinish env queued rec a = (Ok (res, ok, err), a')"
  obtains b where "gate_frame a b" "err \<noteq> None" "res = None" "a' = b\<lparr>a_pendingRecord := rec\<rparr>"
  | b r where "gate_frame a b" "rec = Some r" "res = Some r" "a' = b\<lparr>a_recordAwaitingDispatch := True\<rparr>"
  | "gate_frame a a'" "rec = None" "res = None"
proof -
  obtain p b where p: "processPendingRebalances env queued a = (p, b)" by fastforce
  then have "gate_frame a b" by (rule keepsD [OF keeps_gate_process])
  with assms p that show ?thesis
    by (auto simp: pollFinish_def go_bind_app split: outcome.splits option.splits)
qed

section \<open>The invariant\<close>

text \<open>The record on the engine's side of the channel, and the one on the loop's side.\<close>

definition poll_hold :: "gate_state \<Rightarrow> kgo_record list" where
  "poll_hold s =
     (case g_poll s of
        PFinish (Some r) \<Rightarrow> [r]
      | PDispatch r \<Rightarrow> [r]
      | _ \<Rightarrow> (case a_pendingRecord (g_a s) of Some r \<Rightarrow> [r] | None \<Rightarrow> []))"

definition loop_hold :: "gate_state \<Rightarrow> kgo_record list" where
  "loop_hold s = (case g_loop s of LDeliver r \<Rightarrow> [r] | _ \<Rightarrow> [])"

text \<open>The loop has not left its \<open>for\<close>; the engine owes nothing.\<close>

definition loop_live :: "gate_state \<Rightarrow> bool" where
  "loop_live s \<longleftrightarrow> g_loop s \<notin> {LExit, LCloseRecords, LCloseDone, LDone}"

definition clean :: "gate_state \<Rightarrow> bool" where
  "clean s \<longleftrightarrow> poll_hold s = [] \<and> \<not> a_recordAwaitingDispatch (g_a s) \<and> g_poll s \<noteq> PSignal"

definition flags_inv :: "gate_state \<Rightarrow> bool" where
  "flags_inv s \<longleftrightarrow>
     (a_recordAwaitingDispatch (g_a s) \<longleftrightarrow>
        (\<exists>r. g_poll s = PDispatch r) \<or> g_poll s = PIdle \<and> a_recordAwaitingDispatch (g_a s)) \<and>
     (g_poll s \<noteq> PIdle \<or> a_recordAwaitingDispatch (g_a s) \<longrightarrow> a_pendingRecord (g_a s) = None)"

definition owner_inv :: "gate_state \<Rightarrow> bool" where
  "owner_inv s \<longleftrightarrow>
     (loop_live s \<and> g_loop s \<noteq> LAwaitDispatch \<longrightarrow> clean s) \<and>
     (g_dropped s \<noteq> [] \<longrightarrow> \<not> loop_live s \<and> clean s) \<and> length (g_dropped s) \<le> 1"

definition records_inv :: "gate_state \<Rightarrow> bool" where
  "records_inv s \<longleftrightarrow> g_fetched s = g_dispatched s @ poll_hold s @ loop_hold s @ g_dropped s"

definition channel_inv :: "gate_state \<Rightarrow> bool" where
  "channel_inv s \<longleftrightarrow>
     (a_fetchedRecords (g_a s) = ChanClosed \<longleftrightarrow> g_loop s \<in> {LCloseDone, LDone}) \<and>
     (a_fetchLoopDone (g_a s) = ChanClosed \<longleftrightarrow> g_loop s = LDone)"

definition history_inv :: "gate_state \<Rightarrow> bool" where
  "history_inv s \<longleftrightarrow>
     (g_loop s \<in> {LAwaitDispatch, LAllow} \<or> loop_hold s \<noteq> [] \<longrightarrow> gate_closed (g_history s)) \<and>
     (g_loop s = LExit \<and> (g_dropped s \<noteq> [] \<or> poll_hold s \<noteq> []) \<longrightarrow> gate_closed (g_history s)) \<and>
     (g_loop s \<in> {LPolling, LCloseRecords, LCloseDone, LDone} \<longrightarrow> \<not> gate_closed (g_history s)) \<and>
     (callback_running (g_history s) \<longrightarrow> \<not> gate_closed (g_history s))"

definition gate_inv :: "gate_state \<Rightarrow> bool" where
  "gate_inv s \<longleftrightarrow> flags_inv s \<and> owner_inv s \<and> records_inv s \<and> channel_inv s \<and> history_inv s"

lemmas gate_inv_parts =
  gate_inv_def flags_inv_def owner_inv_def records_inv_def channel_inv_def history_inv_def
  clean_def loop_live_def

lemmas gate_inv_defs = gate_inv_parts poll_hold_def loop_hold_def

lemma hold_updates [simp]:
  "poll_hold (s\<lparr>g_history := h\<rparr>) = poll_hold s"
  "loop_hold (s\<lparr>g_history := h\<rparr>) = loop_hold s"
  "loop_hold (s\<lparr>g_a := a'\<rparr>) = loop_hold s"
  "a_pendingRecord a' = a_pendingRecord (g_a s) \<Longrightarrow> poll_hold (s\<lparr>g_a := a'\<rparr>) = poll_hold s"
  by (simp_all add: poll_hold_def loop_hold_def split: poll_pc.split option.split)

lemma start_inv: "gate_start s \<Longrightarrow> gate_inv s"
  by (simp add: gate_start_def gate_inv_defs)

lemma fetched_one:
  "kgo_contract C \<Longrightarrow> may_return C h f \<Longrightarrow> length (EachRecord f) \<le> 1"
  "kgo_contract C \<Longrightarrow> may_return C h f \<Longrightarrow> callback_running h \<Longrightarrow> EachRecord f = []"
  "kgo_contract C \<Longrightarrow> may_callback C h \<Longrightarrow> \<not> gate_closed h"
  by (auto simp: kgo_contract_def)

lemma loop_inv:
  assumes "kgo_contract C" and "loop_step C s t" and "gate_inv s"
  shows "gate_inv t"
  using assms(2)
proof cases
  case (fetch_exit f now rec a')
  have fr: "gate_frame (g_a s) a'" by (rule fetchNext_frame [OF fetch_exit(4)])
  have "length (EachRecord f) \<le> 1" "callback_running (g_history s) \<Longrightarrow> EachRecord f = []"
    using fetched_one(1,2) [OF assms(1) fetch_exit(3)] by auto
  with assms(3) fr fetch_exit(1,2) show ?thesis
    by (auto simp: gate_inv_defs gate_frame_def split: poll_pc.splits option.splits)
next
  case (fetch_none f now a')
  have fr: "gate_frame (g_a s) a'" by (rule fetchNext_frame [OF fetch_none(4)])
  with assms(3) fetchNext_None [OF fetch_none(4)] fetch_none(1,2) show ?thesis
    by (auto simp: gate_inv_defs gate_frame_def split: poll_pc.splits option.splits)
next
  case (fetch_record f now r a')
  have fr: "gate_frame (g_a s) a'" by (rule fetchNext_frame [OF fetch_record(4)])
  have "EachRecord f = [r]" "\<not> callback_running (g_history s)"
    using fetched_one(1,2) [OF assms(1) fetch_record(3)] fetchNext_Some [OF fetch_record(4)] by auto
  with assms(3) fr fetch_record(1,2) show ?thesis
    by (auto simp: gate_inv_defs gate_frame_def split: poll_pc.splits option.splits)
qed (use assms(3) in \<open>auto simp: gate_inv_defs split: poll_pc.splits option.splits\<close>)

lemma after_signal_stash:
  "a_pendingRecord (g_a s) = None \<Longrightarrow> after_signal s = s\<lparr>g_poll := PReceive\<rparr>"
  by (simp add: after_signal_def pollStash_def)

lemma after_signal_Some:
  "a_pendingRecord (g_a s) = Some r \<Longrightarrow>
   after_signal s = s\<lparr>g_a := (g_a s)\<lparr>a_pendingRecord := None\<rparr>, g_poll := PFinish (Some r)\<rparr>"
  by (simp add: after_signal_def pollStash_def)

lemma poll_inv:
  assumes "poll_step s t" and "gate_inv s"
  shows "gate_inv t"
  using assms(1)
proof cases
  case (poll_plain a')
  then have a': "a' = (g_a s)\<lparr>a_recordAwaitingDispatch := False\<rparr>" "\<not> a_recordAwaitingDispatch (g_a s)"
    by (simp_all add: pollSignal_def)
  show ?thesis
  proof (cases "a_pendingRecord (g_a s)")
    case None
    then have "t = s\<lparr>g_a := a', g_poll := PReceive\<rparr>"
      using poll_plain(1) a'(1) by (simp add: after_signal_stash)
    with assms(2) None a' poll_plain(2) show ?thesis
      by (auto simp: gate_inv_defs split: loop_pc.splits)
  next
    case (Some r)
    then have "t = s\<lparr>g_a := a'\<lparr>a_pendingRecord := None\<rparr>, g_poll := PFinish (Some r)\<rparr>"
      using poll_plain(1) a'(1) by (simp add: after_signal_Some)
    with assms(2) Some a' poll_plain(2) show ?thesis
      by (auto simp: gate_inv_defs split: loop_pc.splits)
  qed
next
  case signal_loop_gone
  then have "a_pendingRecord (g_a s) = None" using assms(2) by (auto simp: gate_inv_def flags_inv_def)
  then have "t = s\<lparr>g_poll := PReceive\<rparr>" using signal_loop_gone by (simp add: after_signal_stash)
  with assms(2) signal_loop_gone(2) show ?thesis
    by (auto simp: gate_inv_defs split: loop_pc.splits)
next
  case (finish rec env queued res ok err a')
  from finish(3) assms(2) finish(1,2) show ?thesis
    by (cases rule: pollFinish_cases)
      (auto simp: gate_inv_defs gate_frame_def split: loop_pc.splits option.splits)
qed (use assms(2) in \<open>auto simp: gate_inv_defs pollSignal_def split: loop_pc.splits\<close>)

lemma sync_inv:
  assumes "sync_step s t" and "gate_inv s"
  shows "gate_inv t"
  using assms(1)
proof cases
  case signal
  then have "a_pendingRecord (g_a s) = None" using assms(2) by (auto simp: gate_inv_def flags_inv_def)
  then have "t = s\<lparr>g_loop := LAllow, g_poll := PReceive\<rparr>" using signal by (simp add: after_signal_stash)
  with assms(2) signal(2,3) show ?thesis by (auto simp: gate_inv_defs)
qed (use assms(2) in \<open>auto simp: gate_inv_defs\<close>)

lemma gate_frame_inv:
  assumes "gate_inv s" and "gate_frame (g_a s) a'"
  shows "gate_inv (s\<lparr>g_a := a'\<rparr>)"
  using assms by (simp add: gate_inv_parts gate_frame_def)

lemma env_inv:
  assumes "kgo_contract C" and "env_step C s t" and "gate_inv s"
  shows "gate_inv t"
proof -
  have begin_inv: "gate_inv (s'\<lparr>g_history := g_history s @ [EvCallbackBegin]\<rparr>)"
    if "gate_inv s'" "g_history s' = g_history s" "may_callback C (g_history s)" for s'
    using that fetched_one(3) [OF assms(1) that(3)]
    by (simp add: gate_inv_parts)
  from assms(2) show ?thesis
  proof cases
    case (assigned m)
    then show ?thesis using begin_inv [OF gate_frame_inv [OF assms(3) gate_frame_OnAssigned]] by simp
  next
    case (revoked env m a')
    then show ?thesis using begin_inv [OF gate_frame_inv [OF assms(3) OnRevoked_frame]] by simp
  next
    case (lost env m a')
    then show ?thesis using begin_inv [OF gate_frame_inv [OF assms(3) OnLost_frame]] by simp
  next
    case (dispatch r)
    then show ?thesis using assms(3) by (auto simp: gate_inv_defs split: loop_pc.splits)
  next
    case cancel
    then show ?thesis using assms(3) by (simp add: gate_inv_parts)
  next
    case callback_end
    then show ?thesis using assms(3) by (auto simp: gate_inv_parts)
  qed
qed

interpretation gate: transition_invariant gate_start "\<lambda>s t. kgo_contract C \<and> gate_step C s t" gate_inv for C
  by unfold_locales (auto simp: start_inv gate_step_def intro: loop_inv poll_inv sync_inv env_inv)

definition gate_reachable :: "kgo_client \<Rightarrow> gate_state \<Rightarrow> bool" where
  "gate_reachable C s \<longleftrightarrow> (\<exists>s0. gate_start s0 \<and> (gate_step C)\<^sup>*\<^sup>* s0 s)"

lemma reachable_gate_inv:
  assumes "kgo_contract C" and "gate_reachable C s"
  shows "gate_inv s"
proof -
  obtain s0 where "gate_start s0" "(gate_step C)\<^sup>*\<^sup>* s0 s" using assms(2) by (auto simp: gate_reachable_def)
  moreover have "(\<lambda>s t. kgo_contract C \<and> gate_step C s t) = gate_step C" using assms(1) by auto
  ultimately show ?thesis using gate.reachable_inv [of s0 C s] by simp
qed

section \<open>Rebalances fall between records\<close>

lemma open_gate_clean:
  assumes "gate_inv s" and "loop_live s" and "\<not> gate_closed (g_history s)"
  shows "g_loop s = LPolling \<and> clean s \<and> g_fetched s = g_dispatched s"
proof -
  have l: "g_loop s = LPolling"
    using assms by (cases "g_loop s") (auto simp: gate_inv_def history_inv_def loop_live_def loop_hold_def)
  then have "clean s" "g_dropped s = []" "loop_hold s = []"
    using assms(1,2) by (auto simp: gate_inv_def owner_inv_def loop_hold_def)
  with l assms(1) show ?thesis by (simp add: gate_inv_def records_inv_def clean_def)
qed

lemma callback_all_dispatched:
  assumes "kgo_contract C" and i: "gate_inv s" and "loop_live s"
    and "may_callback C (g_history s) \<or> callback_running (g_history s)"
  shows "g_fetched s = g_dispatched s \<and> a_pendingRecord (g_a s) = None \<and>
         \<not> a_recordAwaitingDispatch (g_a s) \<and> (\<forall>r. g_loop s \<noteq> LDeliver r)"
proof -
  have "\<not> gate_closed (g_history s)"
    using assms(4) fetched_one(3) [OF assms(1)] i by (auto simp: gate_inv_def history_inv_def)
  from open_gate_clean [OF i assms(3) this]
  have c: "g_loop s = LPolling" "clean s" "g_fetched s = g_dispatched s" by simp_all
  then have "a_pendingRecord (g_a s) = None"
    using i by (cases "g_poll s") (auto simp: clean_def poll_hold_def gate_inv_def flags_inv_def split: option.splits)
  with c show ?thesis by (simp add: clean_def)
qed

lemma undispatched_at_most_one:
  assumes "gate_inv s"
  shows "length (poll_hold s @ loop_hold s @ g_dropped s) \<le> 1"
proof (cases "g_dropped s = []")
  case True
  show ?thesis
  proof (cases "g_loop s")
    case (LDeliver r)
    then have "clean s" using assms by (auto simp: gate_inv_def owner_inv_def loop_live_def)
    then show ?thesis using True LDeliver by (simp add: clean_def loop_hold_def)
  qed (use True in \<open>auto simp: loop_hold_def poll_hold_def split: poll_pc.split option.split\<close>)
next
  case False
  then have "\<not> loop_live s" "clean s" "length (g_dropped s) \<le> 1"
    using assms by (auto simp: gate_inv_def owner_inv_def)
  then show ?thesis by (auto simp: clean_def loop_hold_def loop_live_def split: loop_pc.splits)
qed

text \<open>The reference client: it starts a callback whenever the contract lets it.\<close>

definition ref_client :: kgo_client where
  "ref_client =
     \<lparr>may_callback = (\<lambda>h. \<not> gate_closed h \<and> \<not> callback_running h),
      may_return = (\<lambda>h f. \<not> callback_running h \<and> length (EachRecord f) \<le> 1)\<rparr>"

lemma ref_client_contract: "kgo_contract ref_client"
  by (simp add: ref_client_def kgo_contract_def)

definition healthy_poll :: fetches where
  "healthy_poll = \<lparr>IsClientClosed = False, EachRecord = [sample_record], EachError = [], fetches_Err = None\<rparr>"

definition running_adapter :: adapter where
  "running_adapter = snd (Subscribe False (wired_adapter\<lparr>a_pollRecordsFn := Some 5\<rparr>))"

definition running_state :: gate_state where
  "running_state =
     \<lparr>g_a = running_adapter, g_loop = LPolling, g_poll = PIdle, g_history = [], g_fetched = [],
      g_dispatched = [], g_dropped = []\<rparr>"

lemma running_adapter_fields [simp]:
  "wired running_adapter" "a_pollRecordsFn running_adapter = Some 5" "a_topicName running_adapter = []"
  "a_pendingRecord running_adapter = None" "\<not> a_recordAwaitingDispatch running_adapter"
  "a_fetchedRecords running_adapter = ChanOpen" "a_fetchLoopDone running_adapter = ChanOpen"
  "\<not> a_fetchCancelled running_adapter" "escalates running_adapter" "a_logger running_adapter = Some 1"
  "a_pendingAssigned running_adapter = []"
  by (simp_all add: running_adapter_def Subscribe_app startOnce_def startFetchLoop_def Let_def wired_def
      wired_adapter_def NewCustom_def escalates_def)

lemma running_start: "gate_start running_state"
  by (simp add: gate_start_def running_state_def)

lemma reach_start: "gate_reachable ref_client running_state"
  using running_start by (auto simp: gate_reachable_def)

lemma reach_step: "gate_reachable C s \<Longrightarrow> gate_step C s t \<Longrightarrow> gate_reachable C t"
  by (auto simp: gate_reachable_def intro: rtranclp.rtrancl_into_rtrancl)

lemma reach_loop: "gate_reachable C s \<Longrightarrow> loop_step C s t \<Longrightarrow> gate_reachable C t"
  by (erule reach_step) (simp add: gate_step_def)

lemma reach_poll: "gate_reachable C s \<Longrightarrow> poll_step s t \<Longrightarrow> gate_reachable C t"
  by (erule reach_step) (simp add: gate_step_def)

lemma reach_sync: "gate_reachable C s \<Longrightarrow> sync_step s t \<Longrightarrow> gate_reachable C t"
  by (erule reach_step) (simp add: gate_step_def)

text \<open>One record goes all the way: fetched and handed over, then dispatched and signalled.\<close>

definition handed_state :: "adapter \<Rightarrow> gate_state" where
  "handed_state a = running_state\<lparr>g_a := a, g_loop := LAwaitDispatch, g_poll := PFinish (Some sample_record),
     g_history := [EvPoll healthy_poll], g_fetched := [sample_record]\<rparr>"

lemma one_record_handed_over:
  "\<exists>a. gate_reachable ref_client (handed_state a) \<and> a_pendingRecord a = None \<and>
       \<not> a_recordAwaitingDispatch a \<and> a_pendingAssigned a = [] \<and> a_pollRecordsFn a = Some 5 \<and> wired a"
proof -
  have "a_logger running_adapter \<noteq> None" "\<not> IsClientClosed healthy_poll"
    "\<forall>r rs. EachRecord healthy_poll = r # rs \<longrightarrow> \<not> foreign_record r running_adapter"
    by (simp_all add: healthy_poll_def foreign_record_def)
  from fetchNext_own [OF this(1) running_adapter_fields(9) this(2) running_adapter_fields(8) this(3), of 0]
  obtain a1 where f: "fetchNext 0 healthy_poll running_adapter = (Ok (Some sample_record, False), a1)"
    by (simp add: healthy_poll_def)
  have "fetch_frame running_adapter a1" by (rule keepsD [OF keeps_fetchNext f])
  then have a1: "a_pollRecordsFn a1 = Some 5" "a_pendingRecord a1 = None" "\<not> a_recordAwaitingDispatch a1"
    "a_pendingAssigned a1 = []" "wired a1"
    using running_adapter_fields(1) by (simp_all add: fetch_frame_def wired_def)
  let ?a2 = "a1\<lparr>a_recordAwaitingDispatch := False, a_pendingRecord := None\<rparr>"
  let ?s1 = "running_state\<lparr>g_a := a1, g_loop := LDeliver sample_record, g_history := [EvPoll healthy_poll],
    g_fetched := [sample_record]\<rparr>"
  let ?s2 = "?s1\<lparr>g_a := ?a2, g_poll := PReceive\<rparr>"
  have "loop_step ref_client running_state ?s1"
    using loop_step.fetch_record [of running_state ref_client healthy_poll 0 sample_record a1] f
    by (simp add: running_state_def ref_client_def callback_running_def healthy_poll_def)
  note r1 = reach_loop [OF reach_start this]
  have "poll_step ?s1 ?s2"
    using poll_step.poll_plain [of ?s1 "a1\<lparr>a_recordAwaitingDispatch := False\<rparr>"] a1
    by (simp add: pollSignal_def after_signal_def pollStash_def running_state_def)
  note r2 = reach_poll [OF r1 this]
  have "sync_step ?s2 (handed_state ?a2)"
    using sync_step.handover [of ?s2 sample_record] by (simp add: handed_state_def running_state_def)
  from reach_sync [OF r2 this] a1 show ?thesis by (intro exI [of _ ?a2]) (simp add: wired_def)
qed

definition signalling_state :: "adapter \<Rightarrow> gate_state" where
  "signalling_state a = (handed_state a)\<lparr>g_poll := PSignal, g_dispatched := [sample_record]\<rparr>"

lemma one_record_signalled:
  "\<exists>a. gate_reachable ref_client (signalling_state a) \<and> a_pendingRecord a = None"
proof -
  obtain a where r3: "gate_reachable ref_client (handed_state a)" and a: "a_pendingRecord a = None"
    "a_pendingAssigned a = []" "a_pollRecordsFn a = Some 5" using one_record_handed_over by blast
  let ?a' = "a\<lparr>a_recordAwaitingDispatch := False\<rparr>"
  let ?s4 = "(handed_state a)\<lparr>g_a := a\<lparr>a_recordAwaitingDispatch := True\<rparr>, g_poll := PDispatch sample_record\<rparr>"
  let ?s5 = "?s4\<lparr>g_poll := PIdle, g_dispatched := [sample_record]\<rparr>"
  have "pollFinish accepting_env [] (Some sample_record) a = (Ok (Some sample_record, True, None), g_a ?s4)"
    using a by (simp add: pollFinish_def processPendingRebalances_def go_bind_app)
  then have "poll_step (handed_state a) ?s4"
    using poll_step.finish [of "handed_state a" "Some sample_record"] by (fastforce simp: handed_state_def)
  note r4 = reach_poll [OF r3 this]
  have "env_step ref_client ?s4 ?s5"
    using env_step.dispatch [of ?s4 sample_record ref_client] by (simp add: handed_state_def running_state_def)
  then have r5: "gate_reachable ref_client ?s5" by (intro reach_step [OF r4]) (simp add: gate_step_def)
  have "poll_step ?s5 (signalling_state ?a')"
    using poll_step.poll_signals [of ?s5 ?a'] a
    by (simp add: pollSignal_def signalling_state_def handed_state_def running_state_def)
  from reach_poll [OF r5 this] a show ?thesis by (intro exI [of _ ?a']) simp
qed

lemma one_record_delivered:
  "\<exists>s. gate_reachable ref_client s \<and> loop_live s \<and> g_dispatched s = [sample_record] \<and>
       may_callback ref_client (g_history s)"
proof -
  obtain a where r6: "gate_reachable ref_client (signalling_state a)" and a: "a_pendingRecord a = None"
    using one_record_signalled by blast
  let ?s7 = "(signalling_state a)\<lparr>g_loop := LAllow, g_poll := PReceive\<rparr>"
  let ?s8 = "?s7\<lparr>g_loop := LPolling, g_history := [EvPoll healthy_poll, EvAllow]\<rparr>"
  have "sync_step (signalling_state a) ?s7"
    using sync_step.signal [of "signalling_state a"]
      after_signal_stash [of "(signalling_state a)\<lparr>g_loop := LAllow\<rparr>"] a
    by (simp add: signalling_state_def handed_state_def running_state_def)
  note r7 = reach_sync [OF r6 this]
  have "loop_step ref_client ?s7 ?s8"
    using loop_step.allow [of ?s7 ref_client]
    by (simp add: signalling_state_def handed_state_def running_state_def)
  from reach_loop [OF r7 this] show ?thesis
    by (intro exI [of _ ?s8])
      (simp add: loop_live_def ref_client_def gate_closed_def callback_running_def signalling_state_def)
qed

text \<open>
  C1. The reason for the gate protocol: a rebalance only ever begins between records. Whenever
  the client may start a callback or has one running, and the fetch loop has not been told to
  stop, every record taken from the client has been dispatched by the engine: nothing is on its
  way through the channel, stashed, or returned and not yet dispatched. So a revoke's drain sees
  every record that was fetched.
\<close>

theorem rebalance_sees_every_record:
  assumes "kgo_contract C" and "gate_reachable C s" and "loop_live s"
    and "may_callback C (g_history s) \<or> callback_running (g_history s)"
  shows "g_fetched s = g_dispatched s \<and> a_pendingRecord (g_a s) = None \<and>
         \<not> a_recordAwaitingDispatch (g_a s) \<and> (\<forall>r. g_loop s \<noteq> LDeliver r)"
  by (rule callback_all_dispatched [OF assms(1) reachable_gate_inv [OF assms(1,2)] assms(3,4)])

theorem rebalance_sees_every_record_witness:
  "\<exists>s. gate_reachable ref_client s \<and> g_dispatched s = [sample_record] \<and> g_fetched s = [sample_record]"
proof -
  obtain s where s: "gate_reachable ref_client s" "loop_live s" "g_dispatched s = [sample_record]"
    "may_callback ref_client (g_history s)"
    using one_record_delivered by blast
  from rebalance_sees_every_record [OF ref_client_contract s(1,2) disjI1 [OF s(4)]] s show ?thesis by metis
qed

section \<open>No record is lost, repeated or reordered\<close>

text \<open>
  C2. Along every interleaving the engine dispatches the records in the order the client returned
  them, each once and without a gap: what has been fetched is what has been dispatched followed by
  at most one record, which is in the channel, stashed, or returned. Only a loop that has been told
  to stop drops a record, and then at most the last one, which was never dispatched.
\<close>

theorem records_delivered_in_order:
  assumes "kgo_contract C" and "gate_reachable C s"
  shows "g_fetched s = g_dispatched s @ poll_hold s @ loop_hold s @ g_dropped s \<and>
         length (poll_hold s @ loop_hold s @ g_dropped s) \<le> 1 \<and>
         (g_dropped s \<noteq> [] \<longrightarrow> \<not> loop_live s)"
proof -
  have i: "gate_inv s" by (rule reachable_gate_inv [OF assms])
  then have "g_dropped s \<noteq> [] \<longrightarrow> \<not> loop_live s" "records_inv s"
    by (auto simp: gate_inv_def owner_inv_def)
  with undispatched_at_most_one [OF i] show ?thesis by (simp add: records_inv_def)
qed

theorem records_delivered_in_order_witness:
  "\<exists>s. gate_reachable ref_client s \<and> g_fetched s = [sample_record] \<and> poll_hold s = [sample_record] \<and>
       g_dropped s = []"
proof -
  obtain a where a: "gate_reachable ref_client (handed_state a)" using one_record_handed_over by blast
  have h: "g_fetched (handed_state a) = [sample_record]" "poll_hold (handed_state a) = [sample_record]"
    by (simp_all add: handed_state_def poll_hold_def)
  from records_delivered_in_order [OF ref_client_contract a]
  have "length (poll_hold (handed_state a) @ loop_hold (handed_state a) @ g_dropped (handed_state a)) \<le> 1"
    by blast
  then have "g_dropped (handed_state a) = []" by (simp add: h(2))
  with a h show ?thesis by blast
qed

section \<open>Strict alternation\<close>

lemma count_allow_snoc [simp]:
  "count_list (h @ [EvPoll f]) EvAllow = count_list h EvAllow"
  "count_list (h @ [EvAllow]) EvAllow = Suc (count_list h EvAllow)"
  "count_list (h @ [EvCallbackBegin]) EvAllow = count_list h EvAllow"
  "count_list (h @ [EvCallbackEnd]) EvAllow = count_list h EvAllow"
  by simp_all

definition alternation_inv :: "gate_state \<Rightarrow> bool" where
  "alternation_inv s \<longleftrightarrow>
     (loop_live s \<longrightarrow>
      count_list (g_history s) EvAllow + (if gate_closed (g_history s) then 1 else 0) = length (g_fetched s))"

lemma after_signal_fields [simp]:
  "g_loop (after_signal s) = g_loop s" "g_history (after_signal s) = g_history s"
  "g_fetched (after_signal s) = g_fetched s"
  by (simp_all add: after_signal_def split: prod.split option.split)

lemma alternation_step:
  assumes "kgo_contract C" and "gate_step C s t" and "gate_inv s" and "alternation_inv s"
  shows "alternation_inv t"
proof -
  have closed: "g_loop s = LAllow \<Longrightarrow> gate_closed (g_history s)"
    and opened: "g_loop s = LPolling \<Longrightarrow> \<not> gate_closed (g_history s)"
    using assms(3) by (auto simp: gate_inv_def history_inv_def)
  have one: "EachRecord f = [r]" if "may_return C (g_history s) f"
      "fetchNext now f (g_a s) = (Ok (Some r, False), a')" for f r now a'
    using fetched_one(1) [OF assms(1) that(1)] fetchNext_Some [OF that(2)] by auto
  from assms(2) consider "loop_step C s t" | "poll_step s t" | "sync_step s t" | "env_step C s t"
    by (auto simp: gate_step_def)
  then show ?thesis
  proof cases
    case 1
    then show ?thesis
    proof cases
      case (fetch_record f now r a')
      with one [OF fetch_record(3,4)] opened assms(4) show ?thesis
        by (simp add: alternation_inv_def loop_live_def)
    qed (use assms(4) in \<open>auto simp: alternation_inv_def loop_live_def dest: closed opened fetchNext_None\<close>)
  next
    case 2
    then show ?thesis using assms(4) by cases (auto simp: alternation_inv_def loop_live_def)
  next
    case 3
    then show ?thesis using assms(4) by cases (auto simp: alternation_inv_def loop_live_def)
  next
    case 4
    then show ?thesis using assms(4) by cases (auto simp: alternation_inv_def loop_live_def)
  qed
qed

interpretation alternation: transition_invariant gate_start
  "\<lambda>s t. kgo_contract C \<and> gate_step C s t" "\<lambda>s. gate_inv s \<and> alternation_inv s" for C
proof unfold_locales
  fix s assume "gate_start s"
  then show "gate_inv s \<and> alternation_inv s"
    using start_inv by (auto simp: gate_start_def alternation_inv_def)
next
  fix s t assume "kgo_contract C \<and> gate_step C s t" "gate_inv s \<and> alternation_inv s"
  then show "gate_inv t \<and> alternation_inv t"
    using gate.step_inv [of C s t] alternation_step [of C s t] by blast
qed

text \<open>
  C18. The gate is opened once per record: while the loop runs, the number of \<open>AllowRebalance\<close>
  calls is the number of records taken from the client, less one exactly while a record is in the
  adapter's hands. In particular a poll that brings errors but no record is never followed by an
  \<open>AllowRebalance\<close> of its own; what such a poll does to the gate is left to the client.
\<close>

theorem allow_rebalance_once_per_record:
  assumes "kgo_contract C" and "gate_reachable C s" and "loop_live s"
  shows "count_list (g_history s) EvAllow +
           (if gate_closed (g_history s) then 1 else 0) = length (g_fetched s)"
proof -
  obtain s0 where "gate_start s0" "(gate_step C)\<^sup>*\<^sup>* s0 s" using assms(2) by (auto simp: gate_reachable_def)
  moreover have "(\<lambda>s t. kgo_contract C \<and> gate_step C s t) = gate_step C" using assms(1) by auto
  ultimately have "alternation_inv s" using alternation.reachable_inv [of s0 C s] by simp
  then show ?thesis using assms(3) by (simp add: alternation_inv_def)
qed

theorem allow_rebalance_once_per_record_witness:
  "\<exists>s. gate_reachable ref_client s \<and> gate_closed (g_history s) \<and>
       count_list (g_history s) EvAllow + 1 = length (g_fetched s)"
proof -
  obtain a where a: "gate_reachable ref_client (handed_state a)" using one_record_handed_over by blast
  have "loop_live (handed_state a)" "gate_closed (g_history (handed_state a))"
    by (simp_all add: handed_state_def loop_live_def gate_closed_def healthy_poll_def)
  with allow_rebalance_once_per_record [OF ref_client_contract a] a show ?thesis by (metis (full_types))
qed

section \<open>Nobody waits forever\<close>

text \<open>How far the loop is from its end once it has been told to stop.\<close>

fun loop_rank :: "loop_pc \<Rightarrow> nat" where
  "loop_rank (LDeliver r) = 7"
| "loop_rank LAwaitDispatch = 6"
| "loop_rank LAllow = 5"
| "loop_rank LPolling = 4"
| "loop_rank LExit = 3"
| "loop_rank LCloseRecords = 2"
| "loop_rank LCloseDone = 1"
| "loop_rank LDone = 0"

text \<open>What the exit leaves alone: the engine's side, and the client but for \<open>AllowRebalance\<close>.\<close>

definition exit_frame :: "gate_state \<Rightarrow> gate_state \<Rightarrow> bool" where
  "exit_frame s t \<longleftrightarrow>
     g_poll t = g_poll s \<and> a_pendingRecord (g_a t) = a_pendingRecord (g_a s) \<and>
     (\<exists>es. g_history t = g_history s @ es \<and> set es \<subseteq> {EvAllow})"

lemma exit_frame_trans: "exit_frame s t \<Longrightarrow> exit_frame t u \<Longrightarrow> exit_frame s u"
  by (auto simp: exit_frame_def)

lemma exit_one:
  assumes "\<not> loop_live s" and "g_loop s \<noteq> LDone"
  shows "\<exists>t. loop_step C s t \<and> \<not> loop_live t \<and> loop_rank (g_loop s) = Suc (loop_rank (g_loop t)) \<and>
             exit_frame s t"
proof -
  from assms consider "g_loop s = LExit" | "g_loop s = LCloseRecords" | "g_loop s = LCloseDone"
    by (auto simp: loop_live_def)
  then show ?thesis
  proof cases
    case 1
    from loop_step.exit_allow [OF this, of C] show ?thesis
      by (intro exI conjI, assumption) (simp_all add: 1 loop_live_def exit_frame_def)
  next
    case 2
    from loop_step.exit_close_records [OF this, of C] show ?thesis
      by (intro exI conjI, assumption) (simp_all add: 2 loop_live_def exit_frame_def)
  next
    case 3
    from loop_step.exit_close_done [OF this, of C] show ?thesis
      by (intro exI conjI, assumption) (simp_all add: 3 loop_live_def exit_frame_def)
  qed
qed

lemma exit_path:
  "\<not> loop_live s \<Longrightarrow>
   \<exists>t. (loop_step C ^^ loop_rank (g_loop s)) s t \<and> g_loop t = LDone \<and> exit_frame s t"
proof (induction "loop_rank (g_loop s)" arbitrary: s)
  case 0
  then have "g_loop s = LDone" by (cases "g_loop s") simp_all
  then show ?case by (auto simp: exit_frame_def)
next
  case (Suc n)
  then have "g_loop s \<noteq> LDone" by auto
  with exit_one [OF Suc.prems] obtain t where t: "loop_step C s t" "\<not> loop_live t"
    "loop_rank (g_loop s) = Suc (loop_rank (g_loop t))" "exit_frame s t" by blast
  with Suc.hyps(1) [of t] Suc.hyps(2) obtain u where
    "(loop_step C ^^ loop_rank (g_loop t)) t u" "g_loop u = LDone" "exit_frame t u" by auto
  with t show ?case by (metis exit_frame_trans relpowp_Suc_I2)
qed

lemma loop_path_inv:
  "kgo_contract C \<Longrightarrow> (loop_step C ^^ n) s t \<Longrightarrow> gate_inv s \<Longrightarrow> gate_inv t"
  by (induction n arbitrary: t) (auto intro: loop_inv)

lemma loop_path_gate: "(loop_step C ^^ n) s t \<Longrightarrow> (gate_step C ^^ n) s t"
proof -
  have "loop_step C x y \<Longrightarrow> gate_step C x y" for x y by (simp add: gate_step_def)
  then show "(loop_step C ^^ n) s t \<Longrightarrow> (gate_step C ^^ n) s t" by (rule relpowp_mono)
qed

text \<open>
  C11. The dispatch signal cannot block the engine: wherever a reachable state has \<open>Poll\<close> waiting
  to send it, the fetch loop alone, in at most four steps and without the client doing anything
  but open its gate, gets \<open>Poll\<close> past the signal, because it either takes it or closes
  \<open>fetchLoopDone\<close>.
\<close>

theorem dispatch_signal_never_stuck:
  assumes "kgo_contract C" and "gate_reachable C s" and "g_poll s = PSignal"
  shows "\<exists>n \<le> 4. \<exists>t. (gate_step C ^^ n) s t \<and> g_poll t = PReceive \<and>
                     (\<exists>es. g_history t = g_history s @ es \<and> set es \<subseteq> {EvAllow})"
proof -
  have i: "gate_inv s" by (rule reachable_gate_inv [OF assms(1,2)])
  then have p: "a_pendingRecord (g_a s) = None" and w: "loop_live s \<Longrightarrow> g_loop s = LAwaitDispatch"
    using assms(3) by (auto simp: gate_inv_def flags_inv_def owner_inv_def clean_def)
  show ?thesis
  proof (cases "loop_live s")
    case True
    let ?t = "s\<lparr>g_loop := LAllow, g_poll := PReceive\<rparr>"
    have "sync_step s ?t"
      using sync_step.signal [OF w [OF True] assms(3)] p by (simp add: after_signal_stash)
    then have "(gate_step C ^^ 1) s ?t" unfolding relpowp_1 by (simp add: gate_step_def)
    then show ?thesis by (intro exI [of _ "1::nat"] conjI exI [of _ ?t]) auto
  next
    case False
    from exit_path [OF this] obtain t where t: "(loop_step C ^^ loop_rank (g_loop s)) s t"
      "g_loop t = LDone" "exit_frame s t" by blast
    have f: "a_fetchLoopDone (g_a t) = ChanClosed"
      using loop_path_inv [OF assms(1) t(1) i] t(2) by (simp add: gate_inv_def channel_inv_def)
    let ?u = "t\<lparr>g_poll := PReceive\<rparr>"
    have "poll_step t ?u"
      using poll_step.signal_loop_gone [of t] f t(3) assms(3) p
      by (simp add: exit_frame_def after_signal_stash)
    then have "(gate_step C ^^ Suc (loop_rank (g_loop s))) s ?u"
      using loop_path_gate [OF t(1)] by (auto simp: gate_step_def)
    moreover have "loop_rank (g_loop s) \<le> 3" using False by (auto simp: loop_live_def)
    ultimately show ?thesis
      using t(3) by (intro exI [of _ "Suc (loop_rank (g_loop s))"]) (auto simp: exit_frame_def)
  qed
qed

theorem dispatch_signal_never_stuck_witness:
  "\<exists>s. g_poll s = PSignal \<and> (\<exists>n \<le> 4. \<exists>t. (gate_step ref_client ^^ n) s t \<and> g_poll t = PReceive \<and>
                     (\<exists>es. g_history t = g_history s @ es \<and> set es \<subseteq> {EvAllow}))"
proof -
  obtain a where r: "gate_reachable ref_client (signalling_state a)" using one_record_signalled by blast
  have "g_poll (signalling_state a) = PSignal" by (simp add: signalling_state_def)
  with dispatch_signal_never_stuck [OF ref_client_contract r this] show ?thesis by blast
qed

lemma cancelled_fetch:
  "a_fetchCancelled a \<Longrightarrow> fetchNext now f a = (Ok (rec, exit), a') \<Longrightarrow> exit"
  by (simp add: fetchNext_closed)

lemma cancelled_loop_step:
  assumes "a_fetchCancelled (g_a s)" and "loop_step C s t"
  shows "loop_rank (g_loop t) < loop_rank (g_loop s) \<and> a_fetchCancelled (g_a t)"
  using assms(2)
proof cases
  case (fetch_exit f now rec a')
  with assms(1) fetchNext_frame [OF fetch_exit(4)] show ?thesis by (simp add: gate_frame_def)
next
  case (fetch_none f now a')
  with assms(1) cancelled_fetch [OF assms(1) fetch_none(4)] show ?thesis by simp
next
  case (fetch_record f now r a')
  with assms(1) cancelled_fetch [OF assms(1) fetch_record(4)] show ?thesis by simp
qed (use assms(1) in simp_all)

lemma after_signal_cancelled [simp]:
  "a_fetchCancelled (g_a (after_signal s)) = a_fetchCancelled (g_a s)"
  by (simp add: after_signal_def pollStash_def split: option.split)

lemma cancelled_step:
  assumes "a_fetchCancelled (g_a s)" and "gate_step C s t"
  shows "loop_rank (g_loop t) \<le> loop_rank (g_loop s) \<and> a_fetchCancelled (g_a t)"
proof -
  have p: "a_fetchCancelled (g_a t) \<and> g_loop t = g_loop s" if "poll_step s t"
    using that
  proof cases
    case (finish rec env queued res ok err a')
    from finish(3,1) assms(1) show ?thesis by (cases rule: pollFinish_cases) (auto simp: gate_frame_def)
  qed (use assms(1) in \<open>auto simp: pollSignal_def\<close>)
  have y: "loop_rank (g_loop t) \<le> loop_rank (g_loop s) \<and> a_fetchCancelled (g_a t)" if "sync_step s t"
    using that assms(1) by cases auto
  have e: "a_fetchCancelled (g_a t) \<and> g_loop t = g_loop s" if "env_step C s t"
    using that assms(1)
    by cases (auto simp: OnAssigned_def gate_frame_def dest!: OnRevoked_frame OnLost_frame)
  show ?thesis
    using assms p y e cancelled_loop_step [of s C t] by (fastforce simp: gate_step_def)
qed

lemma cancelled_steps:
  "(gate_step C)\<^sup>*\<^sup>* s t \<Longrightarrow> a_fetchCancelled (g_a s) \<Longrightarrow>
   loop_rank (g_loop t) \<le> loop_rank (g_loop s) \<and> a_fetchCancelled (g_a t)"
  by (induction rule: rtranclp_induct) (auto dest: cancelled_step)

text \<open>
  C8. Once the fetch context is cancelled the loop ends: whatever the engine and the client do
  from then on, every step the loop makes brings it strictly closer to its end (at most seven
  are left), no other step moves it away, and except while it is parked inside the client's poll it
  can always make the next one by itself.
\<close>

theorem cancelled_loop_ends:
  assumes "a_fetchCancelled (g_a s)" and "(gate_step C)\<^sup>*\<^sup>* s t"
  shows "loop_rank (g_loop t) \<le> loop_rank (g_loop s) \<and> loop_rank (g_loop s) \<le> 7 \<and>
    (\<forall>u. loop_step C t u \<longrightarrow> loop_rank (g_loop u) < loop_rank (g_loop t)) \<and>
    (g_loop t = LPolling \<or> g_loop t = LDone \<or> (\<exists>u. loop_step C t u))"
proof -
  have t: "loop_rank (g_loop t) \<le> loop_rank (g_loop s)" "a_fetchCancelled (g_a t)"
    using cancelled_steps [OF assms(2,1)] by simp_all
  have "loop_rank (g_loop s) \<le> 7" by (cases "g_loop s") simp_all
  moreover have "g_loop t = LPolling \<or> g_loop t = LDone \<or> (\<exists>u. loop_step C t u)"
    using t(2) by (cases "g_loop t") (blast intro: loop_step.intros)+
  ultimately show ?thesis using t cancelled_loop_step by blast
qed

theorem cancelled_loop_ends_witness:
  "\<exists>u. loop_step ref_client
         ((handed_state (running_adapter\<lparr>a_fetchCancelled := True\<rparr>))) u"
  using cancelled_loop_ends [of "handed_state (running_adapter\<lparr>a_fetchCancelled := True\<rparr>)" ref_client
      "handed_state (running_adapter\<lparr>a_fetchCancelled := True\<rparr>)"]
  by (simp add: handed_state_def)

text \<open>
  C17. The loop never leaves the gate shut behind it: when \<open>fetchLoopDone\<close> is closed, which is what
  a release waits for before it leaves the group, the loop has called \<open>AllowRebalance\<close> after its
  last record, and no callback the leave needs is blocked by the adapter; \<open>fetchedRecords\<close> is
  closed too, so that \<open>Poll\<close> reports a closed client instead of waiting.
\<close>

theorem loop_exit_opens_gate:
  assumes "kgo_contract C" and "gate_reachable C s" and "a_fetchLoopDone (g_a s) = ChanClosed"
  shows "\<not> gate_closed (g_history s) \<and> a_fetchedRecords (g_a s) = ChanClosed \<and> g_loop s = LDone"
  using reachable_gate_inv [OF assms(1,2)] assms(3)
  by (auto simp: gate_inv_def channel_inv_def history_inv_def)

lemma cancelled_run_ends:
  "\<exists>s. gate_reachable ref_client s \<and> g_loop s = LDone \<and> g_fetched s = [sample_record]"
proof -
  obtain a where r: "gate_reachable ref_client (handed_state a)" using one_record_handed_over by blast
  let ?s = "(handed_state a)\<lparr>g_a := a\<lparr>a_fetchCancelled := True\<rparr>\<rparr>"
  have "env_step ref_client (handed_state a) ?s"
    using env_step.cancel [of ref_client "handed_state a"] by (simp add: handed_state_def)
  then have r1: "gate_reachable ref_client ?s" by (intro reach_step [OF r]) (simp add: gate_step_def)
  let ?t = "?s\<lparr>g_loop := LExit\<rparr>"
  have "loop_step ref_client ?s ?t" by (rule loop_step.await_cancelled) (simp_all add: handed_state_def)
  note r2 = reach_loop [OF r1 this]
  let ?u = "?t\<lparr>g_loop := LCloseRecords, g_history := g_history ?t @ [EvAllow]\<rparr>"
  have "loop_step ref_client ?t ?u" by (rule loop_step.exit_allow) simp
  note r3 = reach_loop [OF r2 this]
  note r4 = reach_loop [OF r3 loop_step.exit_close_records]
  note r5 = reach_loop [OF r4 loop_step.exit_close_done]
  show ?thesis by (intro exI conjI, rule r5) (simp_all add: handed_state_def)
qed

theorem loop_exit_opens_gate_witness:
  "\<exists>s. gate_reachable ref_client s \<and> g_fetched s = [sample_record] \<and> \<not> gate_closed (g_history s)"
proof -
  obtain s where s: "gate_reachable ref_client s" "g_loop s = LDone" "g_fetched s = [sample_record]"
    using cancelled_run_ends by blast
  have "a_fetchLoopDone (g_a s) = ChanClosed"
    using reachable_gate_inv [OF ref_client_contract s(1)] s(2) by (simp add: gate_inv_def channel_inv_def)
  with loop_exit_opens_gate [OF ref_client_contract s(1)] s show ?thesis by blast
qed

section \<open>The steps implement Poll\<close>

text \<open>What the channels have to offer for a call to see the given receive result.\<close>

definition channel_offers :: "gate_state \<Rightarrow> receive \<Rightarrow> bool" where
  "channel_offers s rcv =
     (case rcv of
        Received r \<Rightarrow> g_loop s = LDeliver r
      | LoopExited \<Rightarrow> a_fetchedRecords (g_a s) = ChanClosed
      | TimedOut \<Rightarrow> True)"

definition engine_step :: "gate_state \<Rightarrow> gate_state \<Rightarrow> bool" where
  "engine_step s t \<longleftrightarrow> poll_step s t \<or> sync_step s t"

definition returned_pc :: "kgo_record option \<Rightarrow> poll_pc" where
  "returned_pc res = (case res of Some r \<Rightarrow> PDispatch r | None \<Rightarrow> PIdle)"

lemma finish_steps:
  "pollFinish env queued rec a = (Ok (res, ok, err), a') \<Longrightarrow> g_poll s = PFinish rec \<Longrightarrow> g_a s = a \<Longrightarrow>
   \<exists>t. engine_step\<^sup>*\<^sup>* s t \<and> g_a t = a' \<and> g_poll t = returned_pc res"
  using poll_step.finish [of s rec env queued res ok err a']
  by (intro exI [of _ "s\<lparr>g_a := a', g_poll := returned_pc res\<rparr>"])
    (auto simp: engine_step_def returned_pc_def)

lemma receive_steps:
  assumes "g_poll s = PReceive" and "channel_offers s rcv"
    and "(case rcv of LoopExited \<Rightarrow> (Ok (None, False, Some clientClosed), g_a s)
          | Received r \<Rightarrow> pollFinish env queued (Some r) (g_a s)
          | TimedOut \<Rightarrow> pollFinish env queued None (g_a s)) = (Ok (res, ok, err), a')"
  shows "\<exists>t. engine_step\<^sup>*\<^sup>* s t \<and> g_a t = a' \<and> g_poll t = returned_pc res"
proof (cases rcv)
  case (Received r)
  let ?s = "s\<lparr>g_loop := LAwaitDispatch, g_poll := PFinish (Some r)\<rparr>"
  have "engine_step s ?s"
    using sync_step.handover [of s r] assms(1,2) Received by (simp add: engine_step_def channel_offers_def)
  with finish_steps [of env queued "Some r" "g_a s" res ok err a' ?s] assms(3) Received show ?thesis
    by (auto intro: converse_rtranclp_into_rtranclp)
next
  case TimedOut
  let ?s = "s\<lparr>g_poll := PFinish None\<rparr>"
  have "engine_step s ?s"
    using poll_step.receive_timeout [of s] assms(1) by (simp add: engine_step_def)
  with finish_steps [of env queued None "g_a s" res ok err a' ?s] assms(3) TimedOut show ?thesis
    by (auto intro: converse_rtranclp_into_rtranclp)
next
  case LoopExited
  then have "engine_step s (s\<lparr>g_poll := PIdle\<rparr>)"
    using poll_step.receive_closed [of s] assms(1,2) by (simp add: engine_step_def channel_offers_def)
  with LoopExited assms(3) show ?thesis by (auto simp: returned_pc_def)
qed

lemma stash_steps:
  assumes "engine_step\<^sup>*\<^sup>* s (after_signal s1)" and "channel_offers s1 rcv"
    and "(case pollStash (g_a s1) of
            (Some r, a1) \<Rightarrow> pollFinish env queued (Some r) a1
          | (None, a1) \<Rightarrow> (case rcv of LoopExited \<Rightarrow> (Ok (None, False, Some clientClosed), a1)
              | Received r \<Rightarrow> pollFinish env queued (Some r) a1
              | TimedOut \<Rightarrow> pollFinish env queued None a1)) = (Ok (res, ok, err), a')"
  shows "\<exists>t. engine_step\<^sup>*\<^sup>* s t \<and> g_a t = a' \<and> g_poll t = returned_pc res"
proof (cases "a_pendingRecord (g_a s1)")
  case None
  then have a: "after_signal s1 = s1\<lparr>g_poll := PReceive\<rparr>" by (rule after_signal_stash)
  have c: "channel_offers (after_signal s1) rcv" and p: "g_poll (after_signal s1) = PReceive"
    and g: "g_a (after_signal s1) = g_a s1"
    using assms(2) by (simp_all add: a channel_offers_def split: receive.splits)
  have "(g_a s1)\<lparr>a_pendingRecord := None\<rparr> = g_a s1" using None by simp
  then have q: "pollStash (g_a s1) = (None, g_a s1)" using None by (simp add: pollStash_def)
  have "\<exists>t. engine_step\<^sup>*\<^sup>* (after_signal s1) t \<and> g_a t = a' \<and> g_poll t = returned_pc res"
    using assms(3) unfolding q prod.case option.case by (intro receive_steps [OF p c]) (simp only: g)
  then show ?thesis using rtranclp_trans [OF assms(1)] by blast
next
  case (Some r)
  then have a: "after_signal s1 = s1\<lparr>g_a := (g_a s1)\<lparr>a_pendingRecord := None\<rparr>, g_poll := PFinish (Some r)\<rparr>"
    by (rule after_signal_Some)
  have "\<exists>t. engine_step\<^sup>*\<^sup>* (after_signal s1) t \<and> g_a t = a' \<and> g_poll t = returned_pc res"
    using finish_steps [of env queued "Some r" "g_a (after_signal s1)" res ok err a' "after_signal s1"]
      assms(3) Some by (simp add: a pollStash_def)
  then show ?thesis using rtranclp_trans [OF assms(1)] by blast
qed

text \<open>
  The stages of one call, taken one after the other, compute what the sequential \<open>Poll\<close> computes, so
  that what \<open>Polling\<close> shows of a call holds of the interleaved one. A call that has to signal is
  followed up to its timeout here; the loop's own steps between its signal and the next
  handover are not part of the call.
\<close>

lemma steps_implement_Poll:
  assumes "Poll env queued rcv (g_a s) = (Ok (res, ok, err), a')" and "g_poll s = PIdle"
    and "channel_offers s rcv"
    and "a_recordAwaitingDispatch (g_a s) \<Longrightarrow>
           g_loop s = LAwaitDispatch \<and> rcv = TimedOut \<or> a_fetchLoopDone (g_a s) = ChanClosed"
  shows "\<exists>t. engine_step\<^sup>*\<^sup>* s t \<and> g_a t = a' \<and> g_poll t = returned_pc res"
proof (cases "a_pollRecordsFn (g_a s) = None")
  case True
  then show ?thesis using assms(1,2) by (intro exI [of _ s]) (auto simp: Poll_def returned_pc_def)
next
  case set: False
  let ?a1 = "(g_a s)\<lparr>a_recordAwaitingDispatch := False\<rparr>"
  have P: "(case pollStash ?a1 of
            (Some r, a1) \<Rightarrow> pollFinish env queued (Some r) a1
          | (None, a1) \<Rightarrow> (case rcv of LoopExited \<Rightarrow> (Ok (None, False, Some clientClosed), a1)
              | Received r \<Rightarrow> pollFinish env queued (Some r) a1
              | TimedOut \<Rightarrow> pollFinish env queued None a1)) = (Ok (res, ok, err), a')"
    using assms(1) unfolding Poll_def pollSignal_def snd_conv if_not_P [OF set] .
  show ?thesis
  proof (cases "a_recordAwaitingDispatch (g_a s)")
    case False
    have "engine_step s (after_signal (s\<lparr>g_a := ?a1\<rparr>))"
      using poll_step.poll_plain [OF assms(2) set] False by (simp add: engine_step_def pollSignal_def)
    then have "engine_step\<^sup>*\<^sup>* s (after_signal (s\<lparr>g_a := ?a1\<rparr>))" by (rule r_into_rtranclp)
    from stash_steps [OF this, of rcv env queued res ok err a'] P assms(3)
    show ?thesis by (simp add: channel_offers_def split: receive.splits)
  next
    case True
    let ?s1 = "s\<lparr>g_a := ?a1, g_poll := PSignal\<rparr>"
    have first: "engine_step s ?s1"
      using poll_step.poll_signals [OF assms(2) set] True by (simp add: engine_step_def pollSignal_def)
    from assms(4) [OF True] show ?thesis
    proof
      assume l: "g_loop s = LAwaitDispatch \<and> rcv = TimedOut"
      then have "engine_step ?s1 (after_signal (?s1\<lparr>g_loop := LAllow\<rparr>))"
        using sync_step.signal [of ?s1] by (simp add: engine_step_def)
      with first have "engine_step\<^sup>*\<^sup>* s (after_signal (?s1\<lparr>g_loop := LAllow\<rparr>))"
        by (meson converse_rtranclp_into_rtranclp r_into_rtranclp)
      from stash_steps [OF this, of rcv env queued res ok err a'] P l
      show ?thesis by (simp add: channel_offers_def)
    next
      assume "a_fetchLoopDone (g_a s) = ChanClosed"
      then have "engine_step ?s1 (after_signal ?s1)"
        using poll_step.signal_loop_gone [of ?s1] by (simp add: engine_step_def)
      with first have "engine_step\<^sup>*\<^sup>* s (after_signal ?s1)"
        by (meson converse_rtranclp_into_rtranclp r_into_rtranclp)
      from stash_steps [OF this, of rcv env queued res ok err a'] P assms(3)
      show ?thesis by (simp add: channel_offers_def split: receive.splits)
    qed
  qed
qed

section \<open>Why the loop ends\<close>

lemma fetchNext_exit:
  assumes "fetchNext now f a = (Ok (rec, True), a')"
  shows "IsClientClosed f \<or> a_fetchCancelled a \<or> a_bailOnce a'"
proof -
  have b: "a_bailOnce a2" if "bail e a1 = (Ok u, a2)" for e a1 a2 u
    using bail_once.call_fires [of e a1] that by simp
  show ?thesis
    using assms b
    by (auto simp: fetchNext_def Let_def go_bind_def split: if_splits list.splits prod.splits outcome.splits)
qed

text \<open>The loop was told to stop: cancelled, the client closed, or the consumer bailed out.\<close>

definition told_to_stop :: "gate_state \<Rightarrow> bool" where
  "told_to_stop s \<longleftrightarrow> a_fetchCancelled (g_a s) \<or> a_bailOnce (g_a s) \<or>
     (\<exists>f. EvPoll f \<in> set (g_history s) \<and> IsClientClosed f)"

lemma told_to_stop_step:
  assumes "gate_step C s t" and "told_to_stop s"
  shows "told_to_stop t"
proof -
  have frame: "told_to_stop t'" if "a_fetchCancelled (g_a s) \<longrightarrow> a_fetchCancelled (g_a t')"
    "a_bailOnce (g_a s) \<longrightarrow> a_bailOnce (g_a t')" "set (g_history s) \<subseteq> set (g_history t')" for t'
    using assms(2) that by (auto simp: told_to_stop_def)
  from assms(1) consider "loop_step C s t" | "poll_step s t" | "sync_step s t" | "env_step C s t"
    by (auto simp: gate_step_def)
  then show ?thesis
  proof cases
    case 1
    then show ?thesis
      by (intro frame; cases) (auto simp: gate_frame_def dest!: fetchNext_frame)
  next
    case 2
    then show ?thesis
    proof cases
      case (finish rec env queued res ok err a')
      from finish(3) show ?thesis
        by (cases rule: pollFinish_cases; intro frame) (auto simp: finish(1) gate_frame_def)
    qed (auto intro!: frame simp: pollSignal_def after_signal_def pollStash_def split: option.split)
  next
    case 3
    then show ?thesis
      by (intro frame; cases) (auto simp: after_signal_def pollStash_def split: option.split)
  next
    case 4
    then show ?thesis
      by (intro frame; cases) (auto simp: gate_frame_def OnAssigned_def dest!: OnRevoked_frame OnLost_frame)
  qed
qed

lemma stopped_step:
  assumes "gate_step C s t" and "\<not> loop_live s \<longrightarrow> told_to_stop s"
  shows "\<not> loop_live t \<longrightarrow> told_to_stop t"
proof (cases "told_to_stop s")
  case True
  then show ?thesis using told_to_stop_step [OF assms(1)] by simp
next
  case False
  then have live: "loop_live s" using assms(2) by simp
  have "told_to_stop t" if "loop_step C s t" "\<not> loop_live t"
    using that(1)
  proof cases
    case (fetch_exit f now rec a')
    then show ?thesis
      using fetchNext_exit [OF fetch_exit(4)] fetchNext_frame [OF fetch_exit(4)]
      by (auto simp: told_to_stop_def gate_frame_def)
  qed (use that(2) live False in \<open>auto simp: loop_live_def told_to_stop_def\<close>)
  moreover have "loop_live t" if "poll_step s t \<or> sync_step s t \<or> env_step C s t"
    using that live by (auto simp: loop_live_def elim!: poll_stepE sync_stepE env_stepE)
  ultimately show ?thesis using assms(1) by (auto simp: gate_step_def)
qed

interpretation stopping: transition_invariant gate_start "gate_step C"
  "\<lambda>s. \<not> loop_live s \<longrightarrow> told_to_stop s" for C
  by unfold_locales (auto simp: gate_start_def loop_live_def dest: stopped_step)

section \<open>The specification the protocol implements\<close>

text \<open>
  What the adapter promises to the engine, without goroutines, channels, flags or stash: at most
  one record in hand, the gate shut while there is one, a callback only while the gate is open.
  Only when delivery stops may the record in hand be given up.
\<close>

record delivery =
  d_hand :: "kgo_record list"
  d_done :: "kgo_record list"
  d_shut :: bool
  d_callback :: bool
  d_live :: bool


inductive delivery_step :: "delivery \<Rightarrow> delivery \<Rightarrow> bool" where
  take:
    "d_live d \<Longrightarrow> \<not> d_shut d \<Longrightarrow> \<not> d_callback d \<Longrightarrow> d_hand d = [] \<Longrightarrow>
     delivery_step d (d\<lparr>d_hand := [r], d_shut := True\<rparr>)"
| give:
    "d_hand d = [r] \<Longrightarrow> delivery_step d (d\<lparr>d_hand := [], d_done := d_done d @ [r]\<rparr>)"
| reopen:
    "d_shut d \<Longrightarrow> d_hand d = [] \<or> \<not> d_live d \<Longrightarrow> delivery_step d (d\<lparr>d_shut := False\<rparr>)"
| halt:
    "d_live d \<Longrightarrow> hand = d_hand d \<or> hand = [] \<Longrightarrow> shut = d_shut d \<or> shut \<and> \<not> d_callback d \<Longrightarrow>
     delivery_step d (d\<lparr>d_live := False, d_hand := hand, d_shut := shut\<rparr>)"
| callback:
    "\<not> d_shut d \<Longrightarrow> delivery_step d (d\<lparr>d_callback := True\<rparr>)"
| callback_over:
    "d_callback d \<Longrightarrow> delivery_step d (d\<lparr>d_callback := False\<rparr>)"

definition delivery_of :: "gate_state \<Rightarrow> delivery" where
  "delivery_of s =
     \<lparr>d_hand = poll_hold s @ loop_hold s, d_done = g_dispatched s, d_shut = gate_closed (g_history s),
      d_callback = callback_running (g_history s), d_live = loop_live s\<rparr>"

abbreviation matches :: "gate_state \<Rightarrow> gate_state \<Rightarrow> bool" where
  "matches s t \<equiv> delivery_step (delivery_of s) (delivery_of t) \<or> delivery_of t = delivery_of s"

lemma poll_hold_cong:
  "g_poll t = g_poll s \<Longrightarrow> a_pendingRecord (g_a t) = a_pendingRecord (g_a s) \<Longrightarrow> poll_hold t = poll_hold s"
  by (simp add: poll_hold_def split: poll_pc.split option.split)

lemma live_clean:
  "gate_inv s \<Longrightarrow> g_loop s \<in> {LPolling, LAllow} \<or> loop_hold s \<noteq> [] \<Longrightarrow> poll_hold s = []"
  by (auto simp: gate_inv_parts loop_hold_def split: loop_pc.splits)

lemma loop_keeps_poll_hold:
  assumes "loop_step C s t"
  shows "poll_hold t = poll_hold s"
proof (rule poll_hold_cong)
  show "g_poll t = g_poll s" using assms by cases simp_all
  show "a_pendingRecord (g_a t) = a_pendingRecord (g_a s)"
    using assms by cases (auto simp: gate_frame_def dest!: fetchNext_frame)
qed

lemmas delivery_defs = delivery_of_def loop_hold_def loop_live_def

lemma fetch_matches:
  assumes "kgo_contract C" and "gate_inv s" and "loop_step C s t" and "g_loop s = LPolling"
  shows "matches s t"
proof -
  note hold = loop_keeps_poll_hold [OF assms(3)]
  have idle: "poll_hold s = []" "\<not> gate_closed (g_history s)"
    using live_clean [OF assms(2)] assms(2,4) by (auto simp: gate_inv_def history_inv_def)
  from assms(3) show ?thesis
  proof cases
    case (fetch_exit f now rec a')
    have "callback_running (g_history s) \<Longrightarrow> EachRecord f = []"
      using fetched_one(2) [OF assms(1) fetch_exit(3)] .
    then show ?thesis
      using fetch_exit(1,2) hold delivery_step.halt [of "delivery_of s" "d_hand (delivery_of s)" "d_shut (delivery_of t)"]
      by (auto simp: delivery_defs)
  next
    case (fetch_none f now a')
    with fetchNext_None [OF fetch_none(4)] hold show ?thesis by (simp add: delivery_defs)
  next
    case (fetch_record f now r a')
    have "EachRecord f \<noteq> []" "\<not> callback_running (g_history s)"
      using fetched_one(2) [OF assms(1) fetch_record(3)] fetchNext_Some [OF fetch_record(4)] by auto
    then show ?thesis
      using fetch_record(1,2) hold idle delivery_step.take [of "delivery_of s" r] by (simp add: delivery_defs)
  qed (use assms(4) in simp_all)
qed

lemma loop_matches:
  assumes "kgo_contract C" and "gate_inv s" and "loop_step C s t"
  shows "matches s t"
proof (cases "g_loop s = LPolling")
  case True
  then show ?thesis by (rule fetch_matches [OF assms])
next
  case False
  note hold = loop_keeps_poll_hold [OF assms(3)]
  from assms(3) show ?thesis
  proof cases
    case (deliver_cancelled r)
    have "poll_hold s = []" using live_clean [OF assms(2)] deliver_cancelled(2) by (auto simp: loop_hold_def)
    then show ?thesis
      using deliver_cancelled(1,2) hold delivery_step.halt [of "delivery_of s" "[]" "d_shut (delivery_of s)"]
      by (simp add: delivery_defs)
  next
    case await_cancelled
    then show ?thesis
      using hold delivery_step.halt [of "delivery_of s" "d_hand (delivery_of s)" "d_shut (delivery_of s)"]
      by (simp add: delivery_defs)
  next
    case allow
    have "poll_hold s = []" "gate_closed (g_history s)"
      using live_clean [OF assms(2)] assms(2) allow(2) by (auto simp: gate_inv_def history_inv_def)
    then show ?thesis
      using allow(1,2) hold delivery_step.reopen [of "delivery_of s"] by (simp add: delivery_defs)
  next
    case exit_allow
    then show ?thesis
      using hold delivery_step.reopen [of "delivery_of s"]
      by (cases "gate_closed (g_history s)") (simp_all add: delivery_defs)
  qed (use False hold in \<open>simp_all add: delivery_defs\<close>)
qed

text \<open>The stages of \<open>Poll\<close> move the record in hand about but neither take nor lose it.\<close>

lemma after_signal_hold:
  "g_poll s = PIdle \<or> g_poll s = PSignal \<Longrightarrow> poll_hold (after_signal s) = poll_hold s"
  by (auto simp: after_signal_def pollStash_def poll_hold_def split: option.split)

lemma poll_keeps_hand:
  assumes "gate_inv s" and "poll_step s t"
  shows "poll_hold t = poll_hold s"
  using assms(2)
proof cases
  case (poll_plain a')
  then have "a' = (g_a s)\<lparr>a_recordAwaitingDispatch := False\<rparr>" by (simp add: pollSignal_def)
  then show ?thesis using poll_plain(1,2) by (simp add: after_signal_hold)
next
  case (finish rec env queued res ok err a')
  have n: "a_pendingRecord (g_a s) = None"
    using assms(1) finish(2) by (auto simp: gate_inv_def flags_inv_def)
  from finish(3) show ?thesis
    by (cases rule: pollFinish_cases)
      (use finish(1,2) n in \<open>auto simp: poll_hold_def gate_frame_def split: option.split\<close>)
next
  case signal_loop_gone
  then show ?thesis by (simp add: after_signal_hold)
qed (auto simp: poll_hold_def pollSignal_def)

lemma poll_matches:
  assumes "gate_inv s" and "poll_step s t"
  shows "matches s t"
proof -
  have "g_loop t = g_loop s" "g_history t = g_history s" "g_dispatched t = g_dispatched s"
    using assms(2) by (auto simp: after_signal_def elim!: poll_stepE split: prod.splits option.splits)
  with poll_keeps_hand [OF assms] show ?thesis
    by (simp add: delivery_of_def loop_hold_def loop_live_def)
qed

lemma sync_matches:
  assumes "gate_inv s" and "sync_step s t"
  shows "matches s t"
  using assms(2)
proof cases
  case (handover r)
  have "poll_hold s = []" using live_clean [OF assms(1)] handover(2) by (simp add: loop_hold_def)
  with handover show ?thesis by (simp add: delivery_of_def loop_hold_def loop_live_def poll_hold_def)
next
  case signal
  have "poll_hold (s\<lparr>g_loop := LAllow\<rparr>) = poll_hold s" by (intro poll_hold_cong) simp_all
  with signal have "poll_hold t = poll_hold s" by (simp add: after_signal_hold)
  with signal show ?thesis
    by (simp add: delivery_of_def loop_hold_def loop_live_def after_signal_def split: prod.split option.split)
qed

lemma callback_matches:
  assumes "gate_frame (g_a s) a'" and "\<not> gate_closed (g_history s)"
  shows "matches s (s\<lparr>g_a := a', g_history := g_history s @ [EvCallbackBegin]\<rparr>)"
proof -
  have "poll_hold (s\<lparr>g_a := a', g_history := g_history s @ [EvCallbackBegin]\<rparr>) = poll_hold s"
    using assms(1) by (intro poll_hold_cong) (simp_all add: gate_frame_def)
  with assms(2) show ?thesis
    using delivery_step.callback [of "delivery_of s"] by (simp add: delivery_of_def loop_hold_def loop_live_def)
qed

lemma env_matches:
  assumes "kgo_contract C" and "gate_inv s" and "env_step C s t"
  shows "matches s t"
  using assms(3)
proof cases
  case (dispatch r)
  have "poll_hold s = [r]" "loop_hold s = []"
    using live_clean [OF assms(2)] dispatch(2) by (auto simp: poll_hold_def)
  moreover have "poll_hold t = []"
    using assms(2) dispatch by (auto simp: gate_inv_def flags_inv_def poll_hold_def)
  ultimately show ?thesis
    using dispatch(1) delivery_step.give [of "delivery_of s" r]
    by (simp add: delivery_of_def loop_hold_def loop_live_def)
next
  case cancel
  have "poll_hold t = poll_hold s" by (intro poll_hold_cong) (simp_all add: cancel)
  then show ?thesis by (simp add: cancel delivery_of_def loop_hold_def loop_live_def)
next
  case (assigned m)
  then show ?thesis using callback_matches [OF gate_frame_OnAssigned] fetched_one(3) [OF assms(1)] by simp
next
  case (revoked env m a')
  then show ?thesis using callback_matches [OF OnRevoked_frame] fetched_one(3) [OF assms(1)] by simp
next
  case (lost env m a')
  then show ?thesis using callback_matches [OF OnLost_frame] fetched_one(3) [OF assms(1)] by simp
next
  case callback_end
  then show ?thesis
    using delivery_step.callback_over [of "delivery_of s"] by (simp add: delivery_of_def loop_hold_def loop_live_def)
qed

interpretation delivery: simulation gate_start "\<lambda>s t. kgo_contract C \<and> gate_step C s t" gate_inv
  delivery_of delivery_step for C
  by unfold_locales (auto simp: gate_step_def dest: loop_matches poll_matches sync_matches env_matches)



end
