(* ===== verification/Lifecycle.thy ===== *)
theory Lifecycle
  imports Gate
begin

text \<open>
  From an adapter to a running consumer (\<open>franzadapter/adapter.go\<close>: \<open>initClient\<close>,
  \<open>newOffsetFetcher\<close>, \<open>mapCommittedOffsets\<close>, \<open>WithBandwidthInterval\<close>, \<open>WithOptions\<close>,
  \<open>SetClient\<close>, \<open>RequiredOpts\<close>, \<open>closeOnPanic\<close>, \<open>CreateConsumer\<close>) and the adapter's side of the
  bandwidth port (\<open>franzadapter/bandwidth.go\<close>). What kgo, kadm and the consumer builder answer is a
  \<open>lifecycle_env\<close>; a client is a handle, and the trace says which clients were built and closed.
\<close>

section \<open>Operations\<close>

definition RequiredOpts :: "kgo_opt list" where
  "RequiredOpts =
     [OptDisableAutoCommit, OptBlockRebalanceOnPoll, OptOnPartitionsAssigned OnAssignedFn,
      OptOnPartitionsRevoked OnRevokedFn, OptOnPartitionsLost OnLostFn]"

text \<open>\<open>SetClient\<close>: every function field is bound to the client.\<close>

definition SetClient :: "nat \<Rightarrow> adapter \<Rightarrow> adapter" where
  "SetClient cl a =
     a\<lparr>a_client := Some cl, a_pollRecordsFn := Some cl, a_allowRebalanceFn := Some cl,
       a_commitRecordsFn := Some cl, a_leaveGroupFn := Some cl, a_closeFn := Some cl,
       a_fetchCommittedFn := Some cl\<rparr>"

definition WithOptions :: "AdapterOption option list \<Rightarrow> adapter \<Rightarrow> adapter" where
  "WithOptions options a = a\<lparr>a_opts := processAdapterOptions options\<rparr>"

text \<open>The nexus library's interval check and default are parameters.\<close>

definition WithBandwidthInterval ::
  "(duration \<Rightarrow> go_error option) \<Rightarrow> duration \<Rightarrow> duration \<Rightarrow> adapter \<Rightarrow> adapter outcome" where
  "WithBandwidthInterval validateInterval defaultInterval d a =
     (case validateInterval d of
        Some err \<Rightarrow> Panic (''WithBandwidthInterval: '' @ error_string err)
      | None \<Rightarrow> Ok (a\<lparr>a_bwCollector := Some (newBandwidthCollector defaultInterval d (a_groupID a) [])\<rparr>))"

record lifecycle_env =
  le_NewClient :: "kgo_opt list \<Rightarrow> go_error + nat"
  le_Ping :: "nat \<Rightarrow> go_error option"
  le_OptValues :: "nat \<Rightarrow> opt_values"
  le_TopicName :: string
  le_Build :: "(adapter, consumer option) go"
  le_consumerType :: string

definition clientOpts :: "adapter \<Rightarrow> kgo_opt list" where
  "clientOpts a =
     [OptSeedBrokers (a_brokers a), OptConsumerGroup (a_groupID a), OptConsumeTopics [a_topicName a],
      OptBalancers [''cooperative-sticky''], OptWithLogger (Some 0)] @
     a_userOpts a @
     (RequiredOpts @ (if a_bwCollector a \<noteq> None then [OptWithHooksAdapter] else []))"

definition initClient :: "lifecycle_env \<Rightarrow> (adapter, go_error option) go" where
  "initClient env =
     go_bind (go_modify (\<lambda>a. a\<lparr>a_clientLog := Some (newClientLogBridge (clientLogLevel (a_opts a)))\<rparr>)) (\<lambda>_.
     go_bind (go_read clientOpts) (\<lambda>opts.
     go_bind (perform (BuiltClient opts)) (\<lambda>_.
     case le_NewClient env opts of
       Inl err \<Rightarrow> go_return (Some (WrapError ''failed to create kgo client: '' err))
     | Inr client \<Rightarrow>
         (case le_Ping env client of
            Some err \<Rightarrow>
              go_bind (perform (ClosedClient client)) (\<lambda>_.
              go_return (Some (WrapError ''failed to connect to broker: '' err)))
          | None \<Rightarrow>
              go_bind (go_modify (SetClient client)) (\<lambda>_. go_return None)))))"

text \<open>\<open>closeOnPanic\<close>: a panic of the close itself is swallowed.\<close>

definition closeOnPanic :: "(adapter, unit) go" where
  "closeOnPanic =
     (\<lambda>a. case a_closeFn a of None \<Rightarrow> (Ok (), a) | Some cl \<Rightarrow> perform (ClosedClient cl) a)"

definition noClientError :: go_error where
  "noClientError = OtherError 0
     ''no kgo.Client configured: use New(), NewWithOptions(), or NewCustom()+SetClient()''"

definition notEscalatingError :: "string \<Rightarrow> go_error" where
  "notEscalatingError ty = OtherError 0
     (''consumer '' @ ty @ '' does not satisfy nexus.EmergencyShutdowner: this adapter requires '' @
      ''a consumer that implements EmergencyShutdown(reason error)'')"

text \<open>The part of \<open>CreateConsumer\<close> under the deferred recover: validate, build, check, attach.\<close>

definition attachConsumer :: "consumer \<Rightarrow> adapter \<Rightarrow> adapter" where
  "attachConsumer c a =
     a\<lparr>a_adaptedConsumer := Some c, a_ctx := Some (c_Context c), a_logger := c_Logger c,
       a_clientLog := map_option (attach (c_Context c) (c_Logger c)) (a_clientLog a)\<rparr>"

definition buildConsumer ::
  "lifecycle_env \<Rightarrow> bool \<Rightarrow> nat \<Rightarrow> (adapter, consumer option \<times> go_error option) go" where
  "buildConsumer env createdHere client =
     (\<lambda>a. case fst (Client (le_OptValues env client) []) of
        Panic p \<Rightarrow> (Panic p, a)
      | Ok _ \<Rightarrow>
          go_bind (le_Build env) (\<lambda>built.
          case built of
            Some c \<Rightarrow>
              (if c_EmergencyShutdowner c
               then go_bind (go_modify (attachConsumer c)) (\<lambda>_. go_return (Some c, None))
               else go_bind (go_when createdHere closeOnPanic) (\<lambda>_.
                    go_return (None, Some (notEscalatingError (le_consumerType env)))))
          | None \<Rightarrow> go_bind (go_when createdHere closeOnPanic) (\<lambda>_.
                    go_return (None, Some (notEscalatingError (le_consumerType env))))) a)"

definition recoverAndClose :: "bool \<Rightarrow> (adapter, 'a) go \<Rightarrow> (adapter, 'a) go" where
  "recoverAndClose createdHere m =
     (\<lambda>a. case m a of
        (Panic p, a') \<Rightarrow> if createdHere then (Panic p, snd (closeOnPanic a')) else (Panic p, a')
      | r \<Rightarrow> r)"

definition setTopic :: "string \<Rightarrow> adapter \<Rightarrow> adapter" where
  "setTopic topic a =
     a\<lparr>a_topicName := topic, a_bwCollector := map_option (\<lambda>bc. bc\<lparr>bc_topicName := topic\<rparr>) (a_bwCollector a)\<rparr>"

definition CreateConsumer :: "lifecycle_env \<Rightarrow> (adapter, consumer option \<times> go_error option) go" where
  "CreateConsumer env =
     (\<lambda>a0. let a = setTopic (le_TopicName env) a0;
               createdHere = (a_client a = None \<and> a_groupID a \<noteq> [])
           in go_bind (if createdHere then initClient env else go_return None) (\<lambda>err.
                case err of
                  Some e \<Rightarrow> go_return (None, Some e)
                | None \<Rightarrow>
                    (\<lambda>a. case a_client a of
                       None \<Rightarrow> (Ok (None, Some noClientError), a)
                     | Some client \<Rightarrow> recoverAndClose createdHere (buildConsumer env createdHere client) a)) a)"

section \<open>Committed offsets\<close>

record offset_response =
  or_Err :: "go_error option"
  or_At :: int

type_synonym offset_responses = "(string, (int, offset_response) gomap) gomap"

fun map_partitions :: "(int, offset_response) gomap \<Rightarrow> (int, int) gomap \<Rightarrow> (int, int) gomap" where
  "map_partitions [] m = m"
| "map_partitions ((p, resp) # rest) m =
     (if or_Err resp \<noteq> None then map_partitions rest m
      else map_partitions rest (gm_put p (or_At resp) m))"

fun map_topics :: "offset_responses \<Rightarrow> committed_offsets \<Rightarrow> committed_offsets" where
  "map_topics [] m = m"
| "map_topics ((topic, partitions) # rest) m = map_topics rest (gm_put topic (map_partitions partitions []) m)"

text \<open>The argument lists the responses in the order the two \<open>range\<close> loops visit them.\<close>

definition mapCommittedOffsets :: "offset_responses \<Rightarrow> committed_offsets" where
  "mapCommittedOffsets responses = map_topics responses []"

text \<open>
  The function \<open>newOffsetFetcher\<close> returns: the adapter's group, or the one configured on the
  client (\<open>OptValue(kgo.ConsumerGroup)\<close>, \<open>None\<close> when it is not a string), and kadm's answer.
\<close>

definition newOffsetFetcher ::
  "string option \<Rightarrow> (string \<Rightarrow> string list \<Rightarrow> go_error + offset_responses) \<Rightarrow> adapter \<Rightarrow>
   string list \<Rightarrow> go_error + committed_offsets" where
  "newOffsetFetcher clientGroup fetchOffsets a topics =
     (let grp = (if a_groupID a = [] then (case clientGroup of Some g \<Rightarrow> g | None \<Rightarrow> []) else a_groupID a)
      in if grp = [] then Inl (OtherError 0 ''no consumer group configured'')
         else (case fetchOffsets grp topics of
                 Inl err \<Rightarrow> Inl err
               | Inr responses \<Rightarrow> Inr (mapCommittedOffsets responses)))"

section \<open>The bandwidth port\<close>

definition SetBandwidthCallback :: "nat option \<Rightarrow> adapter \<Rightarrow> adapter" where
  "SetBandwidthCallback cb a =
     (case a_bwCollector a of
        None \<Rightarrow> a
      | Some bc \<Rightarrow> a\<lparr>a_bwCollector := Some (start (bc\<lparr>bc_callback := cb\<rparr>))\<rparr>)"

definition StatsInterval :: "duration \<Rightarrow> adapter \<Rightarrow> duration" where
  "StatsInterval defaultInterval a =
     (case a_bwCollector a of None \<Rightarrow> defaultInterval | Some bc \<Rightarrow> bc_interval bc)"

definition OnFetchBatchRead :: "BrokerMetadata \<Rightarrow> int \<Rightarrow> FetchBatchMetrics \<Rightarrow> adapter \<Rightarrow> adapter" where
  "OnFetchBatchRead meta p metrics a =
     (case a_bwCollector a of
        None \<Rightarrow> a
      | Some bc \<Rightarrow> a\<lparr>a_bwCollector := Some (recordFetchBatch meta p metrics bc)\<rparr>)"

definition OnBrokerRead :: "BrokerMetadata \<Rightarrow> int \<Rightarrow> adapter \<Rightarrow> adapter" where
  "OnBrokerRead meta bytesRead a =
     (case a_bwCollector a of
        None \<Rightarrow> a
      | Some bc \<Rightarrow> a\<lparr>a_bwCollector := Some (recordBrokerRead meta bytesRead bc)\<rparr>)"

definition OnBrokerWrite :: "BrokerMetadata \<Rightarrow> int \<Rightarrow> adapter \<Rightarrow> adapter" where
  "OnBrokerWrite meta bytesWritten a =
     (case a_bwCollector a of
        None \<Rightarrow> a
      | Some bc \<Rightarrow> a\<lparr>a_bwCollector := Some (recordBrokerWrite meta bytesWritten bc)\<rparr>)"

section \<open>No client is leaked\<close>

text \<open>
  What the builder may do to the adapter it is given: register a bandwidth callback, which
  touches the collector, and nothing else.
\<close>

definition build_frame :: "adapter \<Rightarrow> adapter \<Rightarrow> bool" where
  "build_frame a b \<longleftrightarrow> (\<exists>bc. b = a\<lparr>a_bwCollector := bc\<rparr>)"

definition builder_contract :: "lifecycle_env \<Rightarrow> bool" where
  "builder_contract env \<longleftrightarrow> keeps build_frame (le_Build env)"

lemma keeps_build_callback: "keeps build_frame (go_modify (SetBandwidthCallback cb))"
proof (rule keeps_modify)
  fix a :: adapter
  have "a\<lparr>a_bwCollector := a_bwCollector a\<rparr> = a" by simp
  then show "build_frame a (SetBandwidthCallback cb a)"
    unfolding build_frame_def SetBandwidthCallback_def by (metis option.case_eq_if)
qed

lemma Client_accepts: "(\<exists>u. fst (Client c ls) = Ok u) \<longleftrightarrow> required_ok c"
  by (simp add: Client_def go_bind_def ensures_run advisory_runs required_ok_def)

text \<open>The two ways the guarded part of \<open>CreateConsumer\<close> ends.\<close>

lemma build_outcome:
  assumes "builder_contract env" and "a_closeFn a = Some cl"
  obtains c bc where
    "recoverAndClose here (buildConsumer env here client) a =
       (Ok (Some c, None), attachConsumer c (a\<lparr>a_bwCollector := bc\<rparr>))" "c_EmergencyShutdowner c"
    "required_ok (le_OptValues env client)"
  | out bc where
    "recoverAndClose here (buildConsumer env here client) a =
       (out, a\<lparr>a_bwCollector := bc, a_effects := a_effects a @ (if here then [ClosedClient cl] else [])\<rparr>)"
    "\<And>c e. out \<noteq> Ok (Some c, e)"
proof -
  obtain built b where B: "le_Build env a = (built, b)" by fastforce
  then obtain bc where b: "b = a\<lparr>a_bwCollector := bc\<rparr>"
    using keepsD [of build_frame "le_Build env" a built b] assms(1)
    by (auto simp: builder_contract_def build_frame_def)
  have a: "a\<lparr>a_bwCollector := a_bwCollector a\<rparr> = a" by simp
  show ?thesis
  proof (cases "fst (Client (le_OptValues env client) [])")
    case (Panic p)
    then show ?thesis
      using that(2) [of "Panic p" "a_bwCollector a"] assms(2) a
      by (simp add: recoverAndClose_def buildConsumer_def closeOnPanic_def)
  next
    case (Ok u)
    note run = recoverAndClose_def buildConsumer_def closeOnPanic_def go_bind_app go_when_app
    show ?thesis
    proof (cases built)
      case (Panic p)
      then show ?thesis
        using that(2) [of "Panic p" bc] assms(2) Ok B b by (simp add: run)
    next
      case (Ok res)
      show ?thesis
      proof (cases "\<exists>c. res = Some c \<and> c_EmergencyShutdowner c")
        case True
        then show ?thesis
          using that(1) assms(2) Ok \<open>fst _ = Ok u\<close> B b Client_accepts [of "le_OptValues env client" "[]"]
          by (auto simp: run)
      next
        case False
        then have "recoverAndClose here (buildConsumer env here client) a =
          (Ok (None, Some (notEscalatingError (le_consumerType env))),
           a\<lparr>a_bwCollector := bc, a_effects := a_effects a @ (if here then [ClosedClient cl] else [])\<rparr>)"
          using assms(2) Ok \<open>fst _ = Ok u\<close> B b by (auto simp: run split: option.split)
        then show ?thesis by (rule that(2)) simp
      qed
    qed
  qed
qed

definition opts_for :: "lifecycle_env \<Rightarrow> adapter \<Rightarrow> kgo_opt list" where
  "opts_for env a = clientOpts (setTopic (le_TopicName env) a)"

definition opened :: "lifecycle_env \<Rightarrow> adapter \<Rightarrow> adapter" where
  "opened env a =
     (setTopic (le_TopicName env) a)\<lparr>a_clientLog := Some (newClientLogBridge (clientLogLevel (a_opts a))),
        a_effects := a_effects a @ [BuiltClient (opts_for env a)]\<rparr>"

lemma setTopic_fields [simp]:
  "a_client (setTopic t a) = a_client a" "a_groupID (setTopic t a) = a_groupID a"
  "a_effects (setTopic t a) = a_effects a" "a_opts (setTopic t a) = a_opts a"
  "a_closeFn (setTopic t a) = a_closeFn a" "a_topicName (setTopic t a) = t"
  by (simp_all add: setTopic_def)

lemma opts_clientLog [simp]: "clientOpts (a\<lparr>a_clientLog := l\<rparr>) = clientOpts a"
  by (simp add: clientOpts_def)

lemma create_custom:
  "a_client a = Some cl \<Longrightarrow> CreateConsumer env a =
     recoverAndClose False (buildConsumer env False cl) (setTopic (le_TopicName env) a)"
  by (simp add: CreateConsumer_def Let_def go_bind_app)

lemma create_here:
  assumes "a_client a = None" and "a_groupID a \<noteq> []" and "le_NewClient env (opts_for env a) = Inr cl"
  shows "CreateConsumer env a =
    (case le_Ping env cl of
       Some err \<Rightarrow> (Ok (None, Some (WrapError ''failed to connect to broker: '' err)),
                    (opened env a)\<lparr>a_effects := a_effects (opened env a) @ [ClosedClient cl]\<rparr>)
     | None \<Rightarrow> recoverAndClose True (buildConsumer env True cl) (SetClient cl (opened env a)))"
  using assms
  by (simp add: CreateConsumer_def Let_def initClient_def go_bind_app opened_def opts_for_def SetClient_def
      split: option.split)

text \<open>
  C6. No client leaks: if \<open>CreateConsumer\<close> opened a client, then it either returns a consumer and
  leaves the client open, or it has closed the client exactly once, be it after a failed ping,
  a panic of the validation or of the builder, or a consumer that cannot be stopped in an
  emergency. A client that was set from outside is never closed by it.
\<close>

theorem create_consumer_never_leaks:
  assumes "builder_contract env"
  shows "(a_client a = None \<and> a_groupID a \<noteq> [] \<and> le_NewClient env (opts_for env a) = Inr cl \<longrightarrow>
      (\<exists>new. a_effects (snd (CreateConsumer env a)) = a_effects a @ BuiltClient (opts_for env a) # new \<and>
             new = (if \<exists>c. fst (CreateConsumer env a) = Ok (Some c, None) then [] else [ClosedClient cl]))) \<and>
    (a_client a = Some cl \<and> a_closeFn a = Some cl \<longrightarrow> a_effects (snd (CreateConsumer env a)) = a_effects a)"
proof (intro conjI impI; elim conjE)
  assume h: "a_client a = None" "a_groupID a \<noteq> []" "le_NewClient env (opts_for env a) = Inr cl"
  let ?a = "SetClient cl (opened env a)"
  have e: "a_effects ?a = a_effects a @ [BuiltClient (opts_for env a)]" "a_closeFn ?a = Some cl"
    by (simp_all add: SetClient_def opened_def)
  show "\<exists>new. a_effects (snd (CreateConsumer env a)) = a_effects a @ BuiltClient (opts_for env a) # new \<and>
      new = (if \<exists>c. fst (CreateConsumer env a) = Ok (Some c, None) then [] else [ClosedClient cl])"
  proof (cases "le_Ping env cl")
    case None
    then have "CreateConsumer env a = recoverAndClose True (buildConsumer env True cl) ?a"
      using create_here [OF h] by simp
    then show ?thesis
      using e by (cases rule: build_outcome [OF assms e(2), of True cl]) (auto simp: attachConsumer_def)
  next
    case (Some err)
    then show ?thesis using create_here [OF h] by (simp add: opened_def)
  qed
next
  assume h: "a_client a = Some cl" "a_closeFn a = Some cl"
  then have "a_closeFn (setTopic (le_TopicName env) a) = Some cl" by simp
  from build_outcome [OF assms this, of False cl]
  show "a_effects (snd (CreateConsumer env a)) = a_effects a"
    unfolding create_custom [OF h(1)] by (cases) (auto simp: attachConsumer_def)
qed

definition good_opts :: opt_values where
  "good_opts = \<lparr>ov_DisableAutoCommit = AnyBool True, ov_BlockRebalanceOnPoll = AnyBool True,
     ov_Balancers = AnyNil, ov_FetchIsolationLevel = AnyInt8 1, ov_SessionTimeout = AnyNil,
     ov_RebalanceTimeout = AnyNil\<rparr>"

definition good_consumer :: consumer where
  "good_consumer = \<lparr>c_id = 1, c_EmergencyShutdowner = True, c_Context = 1, c_Logger = Some 1\<rparr>"

definition good_env :: lifecycle_env where
  "good_env = \<lparr>le_NewClient = (\<lambda>_. Inr 5), le_Ping = (\<lambda>_. None), le_OptValues = (\<lambda>_. good_opts),
     le_TopicName = ''orders'', le_Build = go_bind (go_modify (SetBandwidthCallback (Some 0))) (\<lambda>_. go_return (Some good_consumer)),
     le_consumerType = ''engine''\<rparr>"

text \<open>The builder panics, or it returns a consumer that cannot be stopped.\<close>

definition panicking_env :: lifecycle_env where
  "panicking_env = good_env\<lparr>le_Build := go_panic ''bad config''\<rparr>"

definition refused_env :: lifecycle_env where
  "refused_env = good_env\<lparr>le_Build := go_return (Some (good_consumer\<lparr>c_EmergencyShutdowner := False\<rparr>))\<rparr>"

definition fresh_adapter :: adapter where
  "fresh_adapter = NewCustom\<lparr>a_groupID := ''g'', a_brokers := [''b:9092'']\<rparr>"

lemma reflp_build_frame [simp, intro]: "reflp build_frame"
proof (rule reflpI)
  fix a :: adapter
  show "build_frame a a" unfolding build_frame_def by (rule exI [of _ "a_bwCollector a"]) simp
qed

lemma transp_build_frame [simp, intro]: "transp build_frame"
  by (rule transpI) (auto simp: build_frame_def)

lemma sample_contracts [simp]:
  "builder_contract good_env" "builder_contract panicking_env" "builder_contract refused_env"
  by (auto simp: builder_contract_def good_env_def panicking_env_def refused_env_def
      intro!: keeps_bind keeps_build_callback)

theorem create_consumer_never_leaks_witness:
  "a_effects (snd (CreateConsumer panicking_env fresh_adapter)) =
     [BuiltClient (opts_for panicking_env fresh_adapter), ClosedClient 5]"
proof -
  have "a_client fresh_adapter = None" "a_groupID fresh_adapter \<noteq> []" "a_effects fresh_adapter = []"
    "le_NewClient panicking_env (opts_for panicking_env fresh_adapter) = Inr 5"
    "fst (CreateConsumer panicking_env fresh_adapter) \<noteq> Ok (Some c, None)" for c
    by (simp_all add: fresh_adapter_def NewCustom_def panicking_env_def good_env_def CreateConsumer_def
        Let_def initClient_def go_bind_app setTopic_def SetClient_def recoverAndClose_def buildConsumer_def
        split: outcome.split)
  with create_consumer_never_leaks [OF sample_contracts(2), of fresh_adapter 5] show ?thesis by auto
qed

section \<open>What a created consumer runs on\<close>

text \<open>Every function field is bound to the adapter's client.\<close>

definition client_wired :: "adapter \<Rightarrow> bool" where
  "client_wired a \<longleftrightarrow> (\<exists>cl. a_client a = Some cl \<and> a_pollRecordsFn a = Some cl \<and>
     a_allowRebalanceFn a = Some cl \<and> a_commitRecordsFn a = Some cl \<and> a_leaveGroupFn a = Some cl \<and>
     a_closeFn a = Some cl \<and> a_fetchCommittedFn a = Some cl)"

lemma client_wired_SetClient [simp]: "client_wired (SetClient cl a)"
  by (simp add: client_wired_def SetClient_def)

lemma client_wired_frame [simp]:
  "client_wired (attachConsumer c a) = client_wired a" "client_wired (setTopic t a) = client_wired a"
  "client_wired (a\<lparr>a_bwCollector := b\<rparr>) = client_wired a" "client_wired (a\<lparr>a_effects := es\<rparr>) = client_wired a"
  by (simp_all add: client_wired_def attachConsumer_def setTopic_def)

lemma CreateConsumer_success:
  assumes "builder_contract env" and "CreateConsumer env a = (Ok (Some c, e), a')"
    and "a_client a = None \<or> client_wired a"
  shows "e = None \<and> c_EmergencyShutdowner c \<and> client_wired a' \<and>
    required_ok (le_OptValues env (the (a_client a'))) \<and>
    a_adaptedConsumer a' = Some c \<and> a_ctx a' = Some (c_Context c) \<and> a_logger a' = c_Logger c \<and>
    a_topicName a' = le_TopicName env"
proof -
  have fin: "e = None \<and> c_EmergencyShutdowner c \<and> client_wired a' \<and>
      required_ok (le_OptValues env (the (a_client a'))) \<and>
      a_adaptedConsumer a' = Some c \<and> a_ctx a' = Some (c_Context c) \<and> a_logger a' = c_Logger c \<and>
      a_topicName a' = le_TopicName env"
    if "recoverAndClose here (buildConsumer env here cl) b = (Ok (Some c, e), a')"
      "client_wired b" "a_client b = Some cl" "a_topicName b = le_TopicName env" for here cl b
  proof -
    have "a_closeFn b = Some cl" using that(2,3) by (auto simp: client_wired_def)
    then show ?thesis
      using that by (cases rule: build_outcome [OF assms(1), of b cl here cl])
        (auto simp: attachConsumer_def client_wired_def)
  qed
  show ?thesis
  proof (cases "a_client a")
    case (Some cl)
    with assms(2,3) show ?thesis by (intro fin [of False cl "setTopic (le_TopicName env) a"]) (simp_all add: create_custom)
  next
    case none: None
    show ?thesis
    proof (cases "a_groupID a = []")
      case True
      then show ?thesis using assms(2) none by (simp add: CreateConsumer_def Let_def go_bind_app)
    next
      case g: False
      show ?thesis
      proof (cases "le_NewClient env (opts_for env a)")
        case (Inl err)
        then show ?thesis
          using assms(2) none g by (simp add: CreateConsumer_def Let_def initClient_def go_bind_app opts_for_def)
      next
        case (Inr cl)
        have "le_Ping env cl = None"
          using assms(2) create_here [OF none g Inr] by (cases "le_Ping env cl") simp_all
        with assms(2) create_here [OF none g Inr] show ?thesis
          by (intro fin [of True cl "SetClient cl (opened env a)"]) (simp_all add: SetClient_def opened_def client_wired_def)
      qed
    qed
  qed
qed

text \<open>
  C16. A consumer that \<open>CreateConsumer\<close> returns is fully wired: it can be stopped in an emergency, so
  a later bail is never without effect; every function field of the adapter is bound to one
  client, whose options passed the validation (auto-commit off, rebalances blocked on poll); and
  topic, context and logger are those of the builder and the consumer.
\<close>

theorem create_consumer_success:
  assumes "builder_contract env" and "CreateConsumer env a = (Ok (Some c, e), a')"
    and "a_client a = None \<or> client_wired a"
  shows "e = None \<and> escalates a' \<and> client_wired a' \<and>
    required_ok (le_OptValues env (the (a_client a'))) \<and>
    a_adaptedConsumer a' = Some c \<and> a_ctx a' = Some (c_Context c) \<and> a_logger a' = c_Logger c \<and>
    a_topicName a' = le_TopicName env"
  using CreateConsumer_success [OF assms] by (simp add: escalates_def)

lemma good_create: "\<exists>a'. CreateConsumer good_env fresh_adapter = (Ok (Some good_consumer, None), a')"
  by (simp add: fresh_adapter_def NewCustom_def good_env_def CreateConsumer_def
      Let_def initClient_def go_bind_app setTopic_def SetClient_def recoverAndClose_def buildConsumer_def
      Client_def good_opts_def ensures_run advisory_runs good_consumer_def)

theorem create_consumer_success_witness:
  "escalates (snd (CreateConsumer good_env fresh_adapter))"
proof -
  obtain a' where a': "CreateConsumer good_env fresh_adapter = (Ok (Some good_consumer, None), a')"
    using good_create by blast
  have "a_client fresh_adapter = None" by (simp add: fresh_adapter_def NewCustom_def)
  from create_consumer_success [OF sample_contracts(1) a' disjI1 [OF this]] a' show ?thesis by simp
qed

text \<open>
  C34. A rejected consumer leaves the adapter unusable for a retry. When \<open>CreateConsumer\<close> opened the
  client itself and then refused the consumer or met a panic, it closed the client but kept it in
  the adapter, so the next call opens no client: if that call succeeds, the consumer it returns
  runs on the closed one.
\<close>

theorem retry_reuses_closed_client:
  assumes "builder_contract env" and "builder_contract env'"
    and "a_client a = None" and "a_groupID a \<noteq> []"
    and "le_NewClient env (opts_for env a) = Inr cl" and "le_Ping env cl = None"
    and "\<And>c. fst (CreateConsumer env a) \<noteq> Ok (Some c, None)"
    and "CreateConsumer env' (snd (CreateConsumer env a)) = (Ok (Some c, None), a')"
  shows "ClosedClient cl \<in> set (a_effects a') \<and> a_pollRecordsFn a' = Some cl \<and>
         BuiltClient opts \<notin> set (drop (length (a_effects (snd (CreateConsumer env a)))) (a_effects a'))"
proof -
  let ?b = "SetClient cl (opened env a)"
  have c1: "CreateConsumer env a = recoverAndClose True (buildConsumer env True cl) ?b"
    using create_here [OF assms(3,4,5)] assms(6) by simp
  have cl: "a_closeFn ?b = Some cl" by (simp add: SetClient_def)
  from build_outcome [OF assms(1) cl, of True cl] assms(7)
  obtain bc where a1: "snd (CreateConsumer env a) =
      ?b\<lparr>a_bwCollector := bc, a_effects := a_effects ?b @ [ClosedClient cl]\<rparr>"
    unfolding c1 by (metis fst_conv snd_conv)
  let ?a1 = "?b\<lparr>a_bwCollector := bc, a_effects := a_effects ?b @ [ClosedClient cl]\<rparr>"
  have w: "a_client ?a1 = Some cl" "a_closeFn (setTopic (le_TopicName env') ?a1) = Some cl"
    "a_pollRecordsFn ?a1 = Some cl" by (simp_all add: SetClient_def)
  have "recoverAndClose False (buildConsumer env' False cl) (setTopic (le_TopicName env') ?a1) = (Ok (Some c, None), a')"
    using assms(8) create_custom [OF w(1)] unfolding a1 by simp
  then have "a_effects a' = a_effects ?a1 \<and> a_pollRecordsFn a' = Some cl"
    using w(3) by (cases rule: build_outcome [OF assms(2) w(2), of False cl])
      (auto simp: attachConsumer_def setTopic_def)
  then show ?thesis unfolding a1 by simp
qed

theorem retry_reuses_closed_client_witness:
  "ClosedClient 5 \<in> set (a_effects (snd (CreateConsumer good_env (snd (CreateConsumer refused_env fresh_adapter))))) \<and>
   a_pollRecordsFn (snd (CreateConsumer good_env (snd (CreateConsumer refused_env fresh_adapter)))) = Some 5"
proof -
  note run = fresh_adapter_def NewCustom_def refused_env_def good_env_def CreateConsumer_def
    Let_def initClient_def go_bind_app setTopic_def SetClient_def recoverAndClose_def buildConsumer_def
    Client_def good_opts_def ensures_run advisory_runs good_consumer_def go_when_app closeOnPanic_def
  have h: "a_client fresh_adapter = None" "a_groupID fresh_adapter \<noteq> []"
    "le_NewClient refused_env (opts_for refused_env fresh_adapter) = Inr 5" "le_Ping refused_env 5 = None"
    by (simp_all add: fresh_adapter_def NewCustom_def refused_env_def good_env_def)
  have r: "fst (CreateConsumer refused_env fresh_adapter) \<noteq> Ok (Some c, None)" for c
    by (simp add: run)
  obtain a' where a': "CreateConsumer good_env (snd (CreateConsumer refused_env fresh_adapter)) =
      (Ok (Some good_consumer, None), a')"
    by (simp add: run)
  from retry_reuses_closed_client [OF sample_contracts(3) sample_contracts(1) h r a'] a' show ?thesis by simp
qed

section \<open>Options\<close>

text \<open>kgo applies options in order, so of two options of one kind the later one counts.\<close>

datatype opt_kind = KSeedBrokers | KConsumerGroup | KConsumeTopics | KBalancers | KWithLogger
  | KDisableAutoCommit | KBlockRebalanceOnPoll | KOnAssigned | KOnRevoked | KOnLost | KWithHooks | KOther nat

fun kind_of :: "kgo_opt \<Rightarrow> opt_kind" where
  "kind_of (OptSeedBrokers _) = KSeedBrokers"
| "kind_of (OptConsumerGroup _) = KConsumerGroup"
| "kind_of (OptConsumeTopics _) = KConsumeTopics"
| "kind_of (OptBalancers _) = KBalancers"
| "kind_of (OptWithLogger _) = KWithLogger"
| "kind_of OptDisableAutoCommit = KDisableAutoCommit"
| "kind_of OptBlockRebalanceOnPoll = KBlockRebalanceOnPoll"
| "kind_of (OptOnPartitionsAssigned _) = KOnAssigned"
| "kind_of (OptOnPartitionsRevoked _) = KOnRevoked"
| "kind_of (OptOnPartitionsLost _) = KOnLost"
| "kind_of OptWithHooksAdapter = KWithHooks"
| "kind_of (OptOther n) = KOther n"

definition effective :: "kgo_opt list \<Rightarrow> opt_kind \<Rightarrow> kgo_opt option" where
  "effective opts k = find (\<lambda>opt. kind_of opt = k) (rev opts)"

lemma find_append: "find P (xs @ ys) = (case find P xs of None \<Rightarrow> find P ys | Some x \<Rightarrow> Some x)"
  by (induction xs) simp_all

lemma effective_append:
  "effective (xs @ ys) k = (case effective ys k of None \<Rightarrow> effective xs k | Some x \<Rightarrow> Some x)"
  by (simp add: effective_def find_append split: option.split)

lemma effective_Cons:
  "effective (x # xs) k = (case effective xs k of None \<Rightarrow> if kind_of x = k then Some x else None | Some y \<Rightarrow> Some y)"
  by (simp add: effective_def find_append split: option.split)

lemma effective_Nil [simp]: "effective [] k = None"
  by (simp add: effective_def)

text \<open>
  C24. Caller options can tune the client but not break the adapter: whatever options the caller
  passes, the client that \<open>CreateConsumer\<close> builds has auto-commit off, rebalances blocked on poll
  and the adapter's three rebalance callbacks, and for every other kind of option the caller's
  last one wins over the adapter's default.
\<close>

theorem required_options_win:
  "map (effective (clientOpts a)) [KDisableAutoCommit, KBlockRebalanceOnPoll, KOnAssigned, KOnRevoked, KOnLost] =
     map Some RequiredOpts \<and>
   (k \<notin> kind_of ` set (OptWithHooksAdapter # RequiredOpts) \<longrightarrow>
    effective (clientOpts a) k =
      (case effective (a_userOpts a) k of
         Some opt \<Rightarrow> Some opt
       | None \<Rightarrow> effective [OptSeedBrokers (a_brokers a), OptConsumerGroup (a_groupID a),
           OptConsumeTopics [a_topicName a], OptBalancers [''cooperative-sticky''], OptWithLogger (Some 0)] k))"
proof -
  have "effective (RequiredOpts @ (if a_bwCollector a \<noteq> None then [OptWithHooksAdapter] else [])) k = None"
    if "k \<notin> kind_of ` set (OptWithHooksAdapter # RequiredOpts)"
    using that by (auto simp: RequiredOpts_def effective_append effective_Cons)
  then show ?thesis
    by (auto simp: clientOpts_def RequiredOpts_def effective_append effective_Cons split: option.split)
qed

theorem required_options_win_witness:
  "effective (clientOpts (fresh_adapter\<lparr>a_userOpts := [OptOnPartitionsRevoked (UserFn 1), OptBalancers [''range'']]\<rparr>)) KBalancers =
     Some (OptBalancers [''range'']) \<and>
   effective (clientOpts (fresh_adapter\<lparr>a_userOpts := [OptOnPartitionsRevoked (UserFn 1), OptBalancers [''range'']]\<rparr>)) KOnRevoked =
     Some (OptOnPartitionsRevoked OnRevokedFn)"
proof -
  let ?a = "fresh_adapter\<lparr>a_userOpts := [OptOnPartitionsRevoked (UserFn 1), OptBalancers [''range'']]\<rparr>"
  have "KBalancers \<notin> kind_of ` set (OptWithHooksAdapter # RequiredOpts)" by (simp add: RequiredOpts_def)
  with required_options_win [of ?a KBalancers] show ?thesis
    by (simp add: RequiredOpts_def effective_Cons)
qed

section \<open>Baselines from the broker\<close>

lemma map_of_partitions:
  "distinct (map fst ps) \<Longrightarrow> map_of (map_partitions ps m) p =
     (case map_of ps p of
        None \<Rightarrow> map_of m p
      | Some resp \<Rightarrow> if or_Err resp \<noteq> None then map_of m p else Some (or_At resp))"
proof (induction ps m rule: map_partitions.induct)
  case (2 q resp rest m)
  then have "map_of rest q = None" by (simp add: map_of_eq_None_iff)
  with 2 show ?case by (auto simp: gm_simps split: option.split)
qed simp

lemma map_of_topics:
  "distinct (map fst ts) \<Longrightarrow> map_of (map_topics ts m) t =
     (case map_of ts t of None \<Rightarrow> map_of m t | Some ps \<Rightarrow> Some (map_partitions ps []))"
proof (induction ts m rule: map_topics.induct)
  case (2 u ps rest m)
  then have "map_of rest u = None" by (simp add: map_of_eq_None_iff)
  with 2 show ?case by (auto simp: gm_simps split: option.split)
qed simp

text \<open>
  C26. From the broker's answer to the announced baseline: with the production fetcher, the offset
  a partition is announced with is the one the broker reports as committed, provided the request
  succeeded, the partition's own entry carries no error and the offset is not negative; in every
  other case (no group, a failed request, a missing topic or partition, an entry with an error)
  the baseline is -1, unknown.
\<close>

theorem baseline_is_broker_offset:
  assumes "\<And>g responses. fetchOffsets g topics = Inr responses \<Longrightarrow>
      distinct (map fst responses) \<and> (\<forall>e \<in> set responses. distinct (map fst (snd e)))"
  shows "baseline (case newOffsetFetcher clientGroup fetchOffsets a topics of Inl _ \<Rightarrow> [] | Inr committed \<Rightarrow> committed) t p =
    (let grp = (if a_groupID a = [] then (case clientGroup of Some g \<Rightarrow> g | None \<Rightarrow> []) else a_groupID a)
     in if grp = [] then -1
        else (case fetchOffsets grp topics of
                Inl _ \<Rightarrow> -1
              | Inr responses \<Rightarrow>
                  (case Option.bind (map_of responses t) (\<lambda>ps. map_of ps p) of
                     None \<Rightarrow> -1
                   | Some resp \<Rightarrow> if or_Err resp = None \<and> 0 \<le> or_At resp then or_At resp else -1)))"
proof -
  have m: "baseline (mapCommittedOffsets responses) t p =
      (case Option.bind (map_of responses t) (\<lambda>ps. map_of ps p) of
         None \<Rightarrow> -1
       | Some resp \<Rightarrow> if or_Err resp = None \<and> 0 \<le> or_At resp then or_At resp else -1)"
    if "fetchOffsets g topics = Inr responses" for g responses
  proof (cases "map_of responses t")
    case None
    then show ?thesis
      using assms [OF that] by (simp add: mapCommittedOffsets_def map_of_topics baseline_def)
  next
    case (Some ps)
    then have "distinct (map fst ps)" using assms [OF that] by (force dest: map_of_SomeD)
    with Some show ?thesis
      using assms [OF that]
      by (auto simp: mapCommittedOffsets_def map_of_topics map_of_partitions baseline_def split: option.split)
  qed
  have e: "baseline [] t p = -1" by (simp add: baseline_def)
  show ?thesis
    by (auto simp: newOffsetFetcher_def Let_def m e split: sum.split)
qed

definition sample_responses :: offset_responses where
  "sample_responses =
     [(''orders'', [(0, \<lparr>or_Err = None, or_At = 42\<rparr>), (1, \<lparr>or_Err = Some (OtherError 0 ''x''), or_At = 7\<rparr>)])]"

theorem baseline_is_broker_offset_witness:
  "baseline (case newOffsetFetcher None (\<lambda>_ _. Inr sample_responses) fresh_adapter [''orders''] of
     Inl _ \<Rightarrow> [] | Inr committed \<Rightarrow> committed) ''orders'' 0 = 42"
  using baseline_is_broker_offset [of "\<lambda>_ _. Inr sample_responses" "[''orders'']" None fresh_adapter "''orders''" 0]
  by (simp add: sample_responses_def fresh_adapter_def)

section \<open>Telemetry of an adapter\<close>

text \<open>
  The client calls the adapter's hooks and the emission goroutine ticks, in any order. The result
  carries the packets that reached the registered callback.
\<close>

fun telemetry_step :: "bw_event \<Rightarrow> adapter \<Rightarrow> adapter \<times> BandwidthMetrics list" where
  "telemetry_step (FetchBatch meta p m) a = (OnFetchBatchRead meta p m a, [])"
| "telemetry_step (BrokerRead meta n) a = (OnBrokerRead meta n a, [])"
| "telemetry_step (BrokerWrite meta n) a = (OnBrokerWrite meta n a, [])"
| "telemetry_step (Tick env) a =
     (case a_bwCollector a of
        None \<Rightarrow> (a, [])
      | Some bc \<Rightarrow> (case emit env bc of
                      (bc', None) \<Rightarrow> (a\<lparr>a_bwCollector := Some bc'\<rparr>, [])
                    | (bc', Some pk) \<Rightarrow> (a\<lparr>a_bwCollector := Some bc'\<rparr>, [pk])))"

fun telemetry_run :: "bw_event list \<Rightarrow> adapter \<Rightarrow> adapter \<times> BandwidthMetrics list" where
  "telemetry_run [] a = (a, [])"
| "telemetry_run (e # es) a =
     (case telemetry_step e a of (a1, ps) \<Rightarrow> (case telemetry_run es a1 of (a2, qs) \<Rightarrow> (a2, ps @ qs)))"

fun is_tick :: "bw_event \<Rightarrow> bool" where
  "is_tick (Tick env) = True"
| "is_tick _ = False"

lemma telemetry_step_collector:
  "a_bwCollector a = Some bc \<Longrightarrow>
   telemetry_step e a = (a\<lparr>a_bwCollector := Some (fst (bw_step e bc))\<rparr>, snd (bw_step e bc))"
  by (cases e) (auto simp: OnFetchBatchRead_def OnBrokerRead_def OnBrokerWrite_def split: prod.split option.split)

lemma telemetry_run_collector:
  "a_bwCollector a = Some bc \<Longrightarrow>
   telemetry_run es a = (a\<lparr>a_bwCollector := Some (fst (bw_run es bc))\<rparr>, snd (bw_run es bc))"
proof (induction es arbitrary: a bc)
  case (Cons e es)
  obtain bc1 ps where st: "bw_step e bc = (bc1, ps)" by fastforce
  have "telemetry_run es (a\<lparr>a_bwCollector := Some bc1\<rparr>) =
      (a\<lparr>a_bwCollector := Some (fst (bw_run es bc1))\<rparr>, snd (bw_run es bc1))"
    using Cons.IH [of "a\<lparr>a_bwCollector := Some bc1\<rparr>" bc1] by simp
  then show ?case
    by (simp add: telemetry_step_collector [OF Cons.prems] st split: prod.split)
qed simp

lemma telemetry_run_off: "a_bwCollector a = None \<Longrightarrow> telemetry_run es a = (a, [])"
proof (induction es)
  case (Cons e es)
  then have "telemetry_step e a = (a, [])"
    by (cases e) (simp_all add: OnFetchBatchRead_def OnBrokerRead_def OnBrokerWrite_def)
  with Cons show ?case by simp
qed simp

text \<open>A collector with a callback answers every tick, and its packets name what it was made for.\<close>

definition same_header :: "bandwidthCollector \<Rightarrow> bandwidthCollector \<Rightarrow> bool" where
  "same_header bc bc' \<longleftrightarrow> bc_callback bc' = bc_callback bc \<and> bc_topicName bc' = bc_topicName bc \<and>
     bc_groupID bc' = bc_groupID bc \<and> bc_interval bc' = bc_interval bc"

lemma bw_step_header: "same_header bc (fst (bw_step e bc))"
  by (cases e)
    (auto simp: same_header_def recordFetchBatch_def recordBrokerRead_def recordBrokerWrite_def updateBroker_def
      Let_def emit_def split: option.split)

lemma bw_run_packets:
  "bc_callback bc \<noteq> None \<Longrightarrow>
   length (snd (bw_run es bc)) = length (filter is_tick es) \<and> same_header bc (fst (bw_run es bc)) \<and>
   (\<forall>pk \<in> set (snd (bw_run es bc)). bw_TopicName pk = bc_topicName bc \<and> bw_ConsumerGroup pk = bc_groupID bc \<and>
      bw_StatsIntervalDuration pk = bc_interval bc)"
proof (induction es arbitrary: bc)
  case Nil
  then show ?case by (simp add: same_header_def)
next
  case (Cons e es)
  obtain bc1 ps where st: "bw_step e bc = (bc1, ps)" by fastforce
  obtain bc2 qs where r: "bw_run es bc1 = (bc2, qs)" by fastforce
  have h: "same_header bc bc1" using bw_step_header [of bc e] st by simp
  have p: "length ps = (if is_tick e then 1 else 0)"
    "\<forall>pk \<in> set ps. bw_TopicName pk = bc_topicName bc \<and> bw_ConsumerGroup pk = bc_groupID bc \<and>
       bw_StatsIntervalDuration pk = bc_interval bc"
    using st Cons.prems by (cases e; auto simp: emit_def split: option.splits)+
  have "bc_callback bc1 \<noteq> None" using h Cons.prems by (simp add: same_header_def)
  from Cons.IH [OF this] p h show ?case
    by (auto simp: st r same_header_def)
qed

text \<open>
  C39. Telemetry from configuration to packet: with an interval set and a callback registered, every
  tick delivers one packet; each carries the topic, the group and the configured interval (the
  default when none was given), which \<open>StatsInterval\<close> reports too; and for every partition the
  bytes and messages of all packets, plus what the collector still holds, are exactly those the
  client reported to the adapter's hooks (modulo the counters' 64 bits). No field but the collector
  changes. On an adapter without telemetry the hooks and the callback registration do nothing.
\<close>

theorem telemetry_end_to_end:
  assumes "WithBandwidthInterval check dflt d a = Ok a1"
    and "\<forall>e \<in> set es. event_ok e"
    and "telemetry_run es (SetBandwidthCallback (Some cb) (setTopic t a1)) = (a2, pks)"
  shows "length pks = length (filter is_tick es) \<and>
    (\<forall>pk \<in> set pks. bw_TopicName pk = t \<and> bw_ConsumerGroup pk = a_groupID a \<and>
       bw_StatsIntervalDuration pk = (if d = 0 then dflt else d)) \<and>
    StatsInterval dflt a2 = (if d = 0 then dflt else d) \<and>
    (\<exists>bc. a2 = (setTopic t a1)\<lparr>a_bwCollector := Some bc\<rparr> \<and>
      (\<forall>p. emitted pb_ReceivedBytes pks p + reading receivedBytes bc p = recorded UncompressedBytes es p \<and>
           emitted pb_ReceivedMessageCount pks p + reading receivedMessageCount bc p = recorded NumRecords es p)) \<and>
    (a_bwCollector b = None \<longrightarrow> telemetry_run es (SetBandwidthCallback (Some cb) b) = (b, []))"
proof -
  define bc0 where "bc0 = start ((newBandwidthCollector dflt d (a_groupID a) [])\<lparr>bc_topicName := t, bc_callback := Some cb\<rparr>)"
  have a1: "a1 = a\<lparr>a_bwCollector := Some (newBandwidthCollector dflt d (a_groupID a) [])\<rparr>"
    using assms(1) by (simp add: WithBandwidthInterval_def split: option.splits)
  have set: "SetBandwidthCallback (Some cb) (setTopic t a1) = (setTopic t a1)\<lparr>a_bwCollector := Some bc0\<rparr>"
    by (simp add: SetBandwidthCallback_def setTopic_def a1 bc0_def)
  have run: "a2 = (setTopic t a1)\<lparr>a_bwCollector := Some (fst (bw_run es bc0))\<rparr>" "pks = snd (bw_run es bc0)"
    using assms(3) telemetry_run_collector [of "(setTopic t a1)\<lparr>a_bwCollector := Some bc0\<rparr>" bc0 es]
    unfolding set by simp_all
  have bc0: "bc_callback bc0 \<noteq> None" "bc_topicName bc0 = t" "bc_groupID bc0 = a_groupID a"
    "bc_interval bc0 = (if d = 0 then dflt else d)" "bw_wf bc0"
    "reading receivedBytes bc0 p = 0" "reading receivedMessageCount bc0 p = 0" for p
    by (simp_all add: bc0_def start_def newBandwidthCollector_def bw_wf_def reading_def
        getOrCreatePartition_def zero_accumulator_def)
  have "bw_run es bc0 = (fst (bw_run es bc0), pks)" by (simp add: run(2))
  note cons = received_bytes.run_conserves [OF bc0(5) assms(2) this]
    received_count.run_conserves [OF bc0(5) assms(2) this]
  have off: "a_bwCollector b = None \<Longrightarrow> telemetry_run es (SetBandwidthCallback (Some cb) b) = (b, [])"
    by (simp add: SetBandwidthCallback_def telemetry_run_off)
  show ?thesis
    using bw_run_packets [OF bc0(1), of es] bc0 cons off unfolding run(1)
    by (auto simp: run(2) same_header_def StatsInterval_def)
qed

theorem telemetry_end_to_end_witness:
  "\<exists>a1 a2 pks. WithBandwidthInterval (\<lambda>_. None) Minute 0 fresh_adapter = Ok a1 \<and>
     telemetry_run sample_events (SetBandwidthCallback (Some 1) (setTopic ''orders'' a1)) = (a2, pks) \<and>
     length pks = 1 \<and> (\<forall>pk \<in> set pks. bw_TopicName pk = ''orders'' \<and> bw_StatsIntervalDuration pk = Minute)"
proof -
  obtain a1 where a1: "WithBandwidthInterval (\<lambda>_. None) Minute 0 fresh_adapter = Ok a1"
    by (simp add: WithBandwidthInterval_def)
  obtain a2 pks where r: "telemetry_run sample_events (SetBandwidthCallback (Some 1) (setTopic ''orders'' a1)) = (a2, pks)"
    by fastforce
  have ok: "\<forall>e \<in> set sample_events. event_ok e" by (simp add: sample_events_def sample_tick_def)
  have "length (filter is_tick sample_events) = 1" by (simp add: sample_events_def)
  with telemetry_end_to_end [OF a1 ok r] a1 r show ?thesis by auto
qed

end
