(* ===== verification/Spec2Isabelle.thy ===== *)
theory Spec2Isabelle
  imports Lifecycle Compatibility
begin

text \<open>
  A verification of the franz-go adapter (\<open>src/franzadapter\<close>), which connects a Kafka client
  (franz-go, package \<open>kgo\<close>) to the llingr consumer engine (package \<open>nexus\<close>).

  \<^bold>\<open>The program.\<close> An \<open>Adapter\<close> is created (\<open>New\<close>, \<open>NewWithOptions\<close>, \<open>NewCustom\<close>), tuned
  (\<open>WithOptions\<close>, \<open>WithBandwidthInterval\<close>) and wired to a client and a consumer by
  \<open>CreateConsumer\<close>. \<open>Subscribe\<close> starts a fetch goroutine, the only caller of the client's
  \<open>PollRecords\<close> and \<open>AllowRebalance\<close>; the engine calls \<open>Poll\<close>, which receives the records over
  an unbuffered channel. The client calls back on rebalances: a revoke is drained inside the
  callback, an assign is queued for the next \<open>Poll\<close>. The gate protocol keeps the client's
  rebalance gate shut from the fetch of a record until the engine has dispatched it. Failing
  partitions are logged at a bounded rate and, after a threshold, stop the consumer (\<open>bail\<close>).
  \<open>Unsubscribe\<close> releases everything once.

  \<^bold>\<open>The theories\<close>, in the order of their imports, with the source file each models:

  \<^item> \<open>Franz_Prelude\<close>: the fragment of Go in use. Functions that may panic are state transformers
    with an outcome (\<open>go\<close>); errors, durations, decimal text, maps; the locales \<open>go_map\<close>,
    \<open>once_guard\<close>, \<open>transition_invariant\<close> and \<open>simulation\<close>.
  \<^item> \<open>Adapter_Options\<close> (\<open>adapter_options.go\<close>): options, validation, clamping. Locale
    \<open>duration_clamp\<close>, interpreted on both clamps.
  \<^item> \<open>Go_Text\<close>: the standard library text functions the adapter calls: UTF-8 validity, base64,
    hexadecimal, \<open>time.Duration\<close> printing.
  \<^item> \<open>Client_Log\<close> (\<open>client_logger.go\<close>): the bridge for the client's own log lines.
  \<^item> \<open>Bandwidth\<close> (\<open>bandwidth.go\<close>): the telemetry collector, its counters 64-bit words. Locale
    \<open>bandwidth_counter\<close>, interpreted on the four counters.
  \<^item> \<open>Compatibility\<close> (\<open>compatibility.go\<close>): the balancer list and its logging decorator.
  \<^item> \<open>Validate_Client\<close> (\<open>validate/client.go\<close>): the client checks.
  \<^item> \<open>Adapter_State\<close> (\<open>adapter.go\<close>): the struct as the record \<open>adapter\<close>, one field each, with a
    trace \<open>a_effects\<close> of the calls that leave the adapter, and the constructors.
  \<^item> \<open>Rebalance\<close> (\<open>rebalance.go\<close>): callbacks, pending queue, baseline lookup, triggers. Locale
    \<open>assign_queue\<close>, interpreted on the pending queue.
  \<^item> \<open>Poll_Errors\<close> (\<open>broker_port.go\<close>): \<open>errIdentity\<close>, \<open>handlePollErrors\<close>, \<open>bail\<close>,
    \<open>fetchNext\<close>.
  \<^item> \<open>Broker_Port\<close> (\<open>broker_port.go\<close>): \<open>ExtractEnvelope\<close>, \<open>CommitOffsets\<close> and the small
    operations of the port.
  \<^item> \<open>Release\<close> (\<open>broker_port.go\<close>): \<open>Subscribe\<close>, \<open>startFetchLoop\<close>, \<open>Unsubscribe\<close>,
    \<open>releaseBroker\<close>.
  \<^item> \<open>Polling\<close> (\<open>broker_port.go\<close>): \<open>Poll\<close> as a sequential operation in three stages.
  \<^item> \<open>Gate\<close> (\<open>broker_port.go\<close>, \<open>rebalance.go\<close>): \<open>runFetchLoop\<close>, the stages of \<open>Poll\<close>, the
    channel rendezvous, the engine, the callbacks and cancellation as inductive step relations,
    the invariants of the gate protocol (interpretations of \<open>transition_invariant\<close>) and the
    delivery specification it implements (an interpretation of \<open>simulation\<close>).
  \<^item> \<open>Lifecycle\<close> (\<open>adapter.go\<close>, \<open>bandwidth.go\<close>): client creation, \<open>CreateConsumer\<close> with its
    cleanup on panics, committed offsets, hooks.
  \<^item> this theory: how the parts fit together.

  \<^bold>\<open>What is a parameter.\<close> kgo, kadm, kerr and nexus are not part of the repository. Poll results
  are values of \<open>fetches\<close>; the answers of the client, the consumer and the builder are fields of
  the environment records (\<open>rebalance_env\<close>, \<open>commit_env\<close>, \<open>release_env\<close>, \<open>lifecycle_env\<close>); the
  order in which Go ranges over a map is a parameter constrained to be a rearrangement
  (\<open>range_order\<close>); times are arguments. Three hypotheses are named: \<open>kgo_contract\<close> (under
  \<open>BlockRebalanceOnPoll\<close> no callback starts between a poll that returned a record and the next
  \<open>AllowRebalance\<close>, no record is returned during a callback, and \<open>PollRecords(ctx, 1)\<close> returns at
  most one record), \<open>err_reports_errors\<close> (\<open>Fetches.Err\<close> is nil only when there is no error) and
  \<open>builder_contract\<close> (building a consumer touches the adapter only through the bandwidth port).
  Each is shown to hold of a concrete instance. The engine dispatches a record before it calls
  \<open>Poll\<close> again, as \<open>Poll\<close> documents: the step \<open>dispatch\<close> of the environment.

  \<^bold>\<open>What the lemmas show.\<close>

  \<^item> Delivery: the goroutines implement a specification of at most one record in hand and a shut
    gate while there is one (\<open>delivery_step\<close>, by a simulation); while the loop is alive a rebalance
    sees every fetched record dispatched; records are dispatched in order, once, without a gap; a
    record stashed by a failing rebalance is the next one returned; no goroutine waits forever on
    the other; the loop ends only when told to, does so after cancellation, and leaves the gate
    open. A loop that stops may leave one record undispatched, which a callback can then meet.
  \<^item> Rebalances: no assign is lost or announced twice; revokes are synchronous; baselines are the
    broker's committed offsets or -1.
  \<^item> Poll errors: the streak of every partition, the bail condition, the log throttle, and that a
    sustained failure stops the consumer exactly once.
  \<^item> Lifecycle: no client leaks from \<open>CreateConsumer\<close>; a returned consumer is fully wired; the
    loop starts once; the release runs once, in order; required options cannot be overridden.
  \<^item> Telemetry: counters are conserved modulo 2^64 and exact while they fit an \<open>int64\<close>; from the
    configured interval to the packets nothing the hooks report is lost.
  \<^item> Behaviour that falls short of the intent is stated too: a revoke does not withdraw a queued
    assign, a release without a logger can skip the close, and a retry after a rejected
    consumer reuses the closed client.

  \<^bold>\<open>Granularity.\<close> In \<open>Gate\<close> a goroutine runs from one waiting point to the next in one step;
  between them it touches only fields it owns or holds the lock, except that the unlocked
  trigger inside \<open>processPendingRebalances\<close> may meet assigns queued meanwhile, which are an
  argument of that operation. No fuel is used: every definition is total, and the loops of the
  goroutines are step relations.

  \<^bold>\<open>Not modelled.\<close> The text of log messages other than the values they carry; \<open>fmt\<close>'s rendering of
  arbitrary values; errors with an \<open>Is\<close> method of their own and joined errors; tickers and timers beyond their outcome; the diagnostic trace that is
  commented out in the source; tests, build files and documentation.
\<close>

section \<open>From construction to the gate protocol\<close>

definition subscribed_state :: "bool \<Rightarrow> adapter \<Rightarrow> gate_state" where
  "subscribed_state ctxDone a =
     \<lparr>g_a = snd (Subscribe ctxDone a), g_loop = LPolling, g_poll = PIdle, g_history = [],
      g_fetched = [], g_dispatched = [], g_dropped = []\<rparr>"

lemma NewWithOptions_fields:
  assumes "NewWithOptions ic grp brks opts = Ok a"
  shows "a_client a = None" "a_groupID a \<noteq> []" "a_pendingRecord a = None" "\<not> a_recordAwaitingDispatch a"
    "\<not> a_fetchStart a"
  using assms by (auto simp: NewWithOptions_def NewCustom_def split: if_splits)

lemma created_fields:
  assumes "builder_contract env" and "NewWithOptions ic grp brks opts = Ok a"
    and "CreateConsumer env a = (Ok (Some c, e), a')"
  shows "a_pendingRecord a' = None \<and> \<not> a_recordAwaitingDispatch a' \<and> \<not> a_fetchStart a'"
proof -
  note f = NewWithOptions_fields [OF assms(2)]
  show ?thesis
  proof (cases "le_NewClient env (opts_for env a)")
    case (Inl err)
    then show ?thesis
      using assms(3) f by (simp add: CreateConsumer_def Let_def initClient_def go_bind_app opts_for_def)
  next
    case (Inr cl)
    let ?b = "SetClient cl (opened env a)"
    have "le_Ping env cl = None"
      using assms(3) create_here [OF f(1,2) Inr] by (cases "le_Ping env cl") simp_all
    then have r: "recoverAndClose True (buildConsumer env True cl) ?b = (Ok (Some c, e), a')"
      using assms(3) create_here [OF f(1,2) Inr] by simp
    have "a_closeFn ?b = Some cl" by (simp add: SetClient_def)
    then show ?thesis
      using r f by (cases rule: build_outcome [OF assms(1), of ?b cl True cl])
        (auto simp: attachConsumer_def SetClient_def opened_def setTopic_def)
  qed
qed

lemma subscribe_gate_start:
  assumes "a_logger a \<noteq> None" and "a_pollRecordsFn a \<noteq> None" and "\<not> a_fetchStart a"
    and "a_pendingRecord a = None" and "\<not> a_recordAwaitingDispatch a"
  shows "fst (Subscribe d a) = Ok None \<and> gate_start (subscribed_state d a)"
  using assms
  by (simp add: Subscribe_app startOnce_def startFetchLoop_def Let_def subscribed_state_def gate_start_def
      del: not_None_eq)

text \<open>
  C3. The parts fit together. A consumer created from a new adapter, whatever options the caller
  passed, and then subscribed, starts in the state the gate protocol assumes; and from there, with any
  client that keeps its contract, in every interleaving of the fetch loop, the engine and the
  callbacks: at most one fetched record is undispatched; while a callback runs there is none,
  unless the loop has been told to stop, that is, the fetch context was cancelled, the client was
  closed or the consumer bailed out; and the loop is never left for another reason.
\<close>

theorem created_consumer_keeps_protocol:
  assumes "NewWithOptions ic grp brks opts = Ok a" and "builder_contract env"
    and "CreateConsumer env a = (Ok (Some c, e), a')" and "c_Logger c \<noteq> None"
    and "kgo_contract C"
  shows "fst (Subscribe d a') = Ok None \<and> gate_start (subscribed_state d a') \<and>
    (\<forall>t. (gate_step C)\<^sup>*\<^sup>* (subscribed_state d a') t \<longrightarrow>
       (\<exists>rest. g_fetched t = g_dispatched t @ rest \<and> length rest \<le> 1 \<and>
          (callback_running (g_history t) \<and> \<not> told_to_stop t \<longrightarrow> rest = [])) \<and>
       (\<not> loop_live t \<longrightarrow> told_to_stop t))"
proof -
  have "a_client a = None" using NewWithOptions_fields [OF assms(1)] by simp
  then have "client_wired a'" "a_logger a' = c_Logger c"
    using CreateConsumer_success [OF assms(2,3)] by simp_all
  then have "a_logger a' \<noteq> None" "a_pollRecordsFn a' \<noteq> None"
    using assms(4) by (auto simp: client_wired_def)
  with created_fields [OF assms(2,1,3)]
  have s: "fst (Subscribe d a') = Ok None" "gate_start (subscribed_state d a')"
    using subscribe_gate_start [of a' d] by simp_all
  have "(\<exists>rest. g_fetched t = g_dispatched t @ rest \<and> length rest \<le> 1 \<and>
          (callback_running (g_history t) \<and> \<not> told_to_stop t \<longrightarrow> rest = [])) \<and>
       (\<not> loop_live t \<longrightarrow> told_to_stop t)" if r: "(gate_step C)\<^sup>*\<^sup>* (subscribed_state d a') t" for t
  proof -
    have "gate_reachable C t" using s(2) r by (auto simp: gate_reachable_def)
    then have i: "gate_inv t" by (rule reachable_gate_inv [OF assms(5)])
    have told: "\<not> loop_live t \<longrightarrow> told_to_stop t" by (rule stopping.reachable_inv [OF s(2) r])
    let ?rest = "poll_hold t @ loop_hold t @ g_dropped t"
    have "g_fetched t = g_dispatched t @ ?rest" "length ?rest \<le> 1"
      using i undispatched_at_most_one [OF i] by (simp_all add: gate_inv_def records_inv_def)
    moreover have "?rest = []" if "callback_running (g_history t)" "\<not> told_to_stop t"
      using callback_all_dispatched [OF assms(5) i] that told calculation(1) by (metis append_self_conv)
    ultimately show ?thesis using told by blast
  qed
  with s show ?thesis by blast
qed

theorem created_consumer_keeps_protocol_witness:
  "\<exists>a'. CreateConsumer good_env (NewCustom\<lparr>a_initCtx := None, a_groupID := ''g'', a_brokers := [''b:9092''], a_userOpts := []\<rparr>) =
          (Ok (Some good_consumer, None), a') \<and> gate_start (subscribed_state False a')"
proof -
  let ?a = "NewCustom\<lparr>a_initCtx := None, a_groupID := ''g'', a_brokers := [''b:9092''], a_userOpts := []\<rparr>"
  have n: "NewWithOptions None ''g'' [''b:9092''] [] = Ok ?a" by (simp add: NewWithOptions_def)
  have "?a = fresh_adapter" by (simp add: fresh_adapter_def NewCustom_def)
  then obtain a' where a': "CreateConsumer good_env ?a = (Ok (Some good_consumer, None), a')"
    using good_create by auto
  have "c_Logger good_consumer \<noteq> None" by (simp add: good_consumer_def)
  from created_consumer_keeps_protocol [OF n sample_contracts(1) a' this ref_client_contract, of False] a'
  show ?thesis by blast
qed

end
